theory Spec2Isabelle
  imports Main "HOL-Library.Sublist"
begin

section \<open>Regular expressions of the remote source client\<close>

text \<open>
  The client (internal/api/client.go) matches text with Go's \<^verbatim>\<open>regexp\<close> package. Go strings
  are byte sequences, modelled as \<^typ>\<open>string\<close>. The expressions of the program are all
  sequences of the items below; \<open>rx_match\<close> is the leftmost-first backtracking match of
  such a sequence at the start of the input, returning the captured groups and the
  unconsumed rest. Every item of the program's expressions starts and ends at an ASCII
  byte, so matching bytes and matching runes select the same substrings.
\<close>

datatype re_item =
    Lit string
  | LitFold string
  | Opt string
  | One "char \<Rightarrow> bool"
  | Many "char \<Rightarrow> bool"
  | Lazy
  | Cap nat "char \<Rightarrow> bool"

definition lower_letters :: string where
  "lower_letters = ''abcdefghijklmnopqrstuvwxyz''"

definition upper_letters :: string where
  "upper_letters = ''ABCDEFGHIJKLMNOPQRSTUVWXYZ''"

text \<open>
  Under \<^verbatim>\<open>(?i)\<close> a letter of the expression matches every member of its simple case
  folding orbit: itself, the other case and, for \<open>s\<close> and \<open>k\<close>, the code points U+017F
  and U+212A, here in UTF-8.
\<close>

definition fold_variants :: "char \<Rightarrow> string list" where
  "fold_variants c =
     (let lo = (case map_of (zip upper_letters lower_letters) c of Some l \<Rightarrow> l | None \<Rightarrow> c)
      in case map_of (zip lower_letters upper_letters) lo of
           None \<Rightarrow> [[c]]
         | Some up \<Rightarrow>
             [[lo], [up]] @
             (if lo = CHR ''s'' then [[CHR 0xC5, CHR 0xBF]]
              else if lo = CHR ''k'' then [[CHR 0xE2, CHR 0x84, CHR 0xAA]]
              else []))"

fun fold_prefix :: "string \<Rightarrow> string \<Rightarrow> string option" where
  "fold_prefix [] s = Some s"
| "fold_prefix (c # cs) s =
     (case filter (\<lambda>v. prefix v s) (fold_variants c) of
        [] \<Rightarrow> None
      | v # _ \<Rightarrow> fold_prefix cs (drop (length v) s))"

fun rx_match :: "re_item list \<Rightarrow> string \<Rightarrow> (string list \<times> string) option" where
  "rx_match [] s = Some ([], s)"
| "rx_match (Lit l # r) s =
     (if prefix l s then rx_match r (drop (length l) s) else None)"
| "rx_match (LitFold l # r) s =
     (case fold_prefix l s of None \<Rightarrow> None | Some s' \<Rightarrow> rx_match r s')"
| "rx_match (Opt l # r) s =
     (case (if prefix l s then rx_match r (drop (length l) s) else None) of
        Some m \<Rightarrow> Some m
      | None \<Rightarrow> rx_match r s)"
| "rx_match (One p # r) [] = None"
| "rx_match (One p # r) (c # cs) = (if p c then rx_match r cs else None)"
| "rx_match (Many p # r) [] = rx_match r []"
| "rx_match (Many p # r) (c # cs) =
     (if p c
      then (case rx_match (Many p # r) cs of Some m \<Rightarrow> Some m | None \<Rightarrow> rx_match r (c # cs))
      else rx_match r (c # cs))"
| "rx_match (Lazy # r) [] = rx_match r []"
| "rx_match (Lazy # r) (c # cs) =
     (case rx_match r (c # cs) of Some m \<Rightarrow> Some m | None \<Rightarrow> rx_match (Lazy # r) cs)"
| "rx_match (Cap n p # r) s =
     (if n \<le> length s \<and> list_all p (take n s)
      then (case rx_match r (drop n s) of
              None \<Rightarrow> None
            | Some (caps, rest) \<Rightarrow> Some (take n s # caps, rest))
      else None)"

text \<open>
  \<^verbatim>\<open>FindAllStringSubmatch(s, -1)\<close>: the successive non-overlapping matches, each as the
  matched text followed by its groups. A match that consumes nothing is passed over; no
  expression of this program has one.
\<close>

function FindAllStringSubmatch :: "re_item list \<Rightarrow> string \<Rightarrow> string list list" where
  "FindAllStringSubmatch pat s =
     (if s = [] then []
      else case rx_match pat s of
             None \<Rightarrow> FindAllStringSubmatch pat (tl s)
           | Some (caps, rest) \<Rightarrow>
               if length rest < length s
               then (take (length s - length rest) s # caps) # FindAllStringSubmatch pat rest
               else FindAllStringSubmatch pat (tl s))"
  by pat_completeness auto
termination
  by (relation "measure (\<lambda>(pat, s). length s)") auto

declare FindAllStringSubmatch.simps [simp del]

section \<open>Extraction of video links\<close>

definition id_char :: "char \<Rightarrow> bool" where
  "id_char c \<longleftrightarrow> c \<in> set lower_letters \<or> c \<in> set upper_letters \<or> c \<in> set ''0123456789_-''"

definition youtubePatterns :: "re_item list list" where
  "youtubePatterns =
     [ [Lit ''http'', Opt ''s'', Lit ''://'', Opt ''www.'', Lit ''youtube.com/watch?v='', Cap 11 id_char],
       [Lit ''http'', Opt ''s'', Lit ''://'', Opt ''www.'', Lit ''youtube.com/embed/'', Cap 11 id_char],
       [Lit ''http'', Opt ''s'', Lit ''://youtu.be/'', Cap 11 id_char],
       [Lit ''http'', Opt ''s'', Lit ''://'', Opt ''www.'', Lit ''youtube.com/v/'', Cap 11 id_char],
       [Lit ''http'', Opt ''s'', Lit ''://'', Opt ''www.'', Lit ''youtube.com/shorts/'', Cap 11 id_char] ]"

definition watch_prefix :: string where
  "watch_prefix = ''https://www.youtube.com/watch?v=''"

text \<open>The body of the inner loop of \<open>ExtractYouTubeLinks\<close>, on the pair (seen, links).\<close>

definition record_match :: "(string \<Rightarrow> bool) \<times> string list \<Rightarrow> string list \<Rightarrow> (string \<Rightarrow> bool) \<times> string list" where
  "record_match st match =
     (let (seen, links) = st in
      if length match \<ge> 2
      then (let videoID = match ! 1; fullURL = watch_prefix @ videoID
            in if \<not> seen videoID then (seen(videoID := True), links @ [fullURL]) else (seen, links))
      else (seen, links))"

definition ExtractYouTubeLinks :: "string \<Rightarrow> string list" where
  "ExtractYouTubeLinks content =
     snd (foldl (\<lambda>st pattern. foldl record_match st (FindAllStringSubmatch pattern content))
                (\<lambda>_. False, []) youtubePatterns)"

subsection \<open>The extraction as the specification words it\<close>

text \<open>
  The specification's reading of the extraction, for comparison with the loop above:
  the ids of all matches, expression by expression in the order of \<open>youtubePatterns\<close> and
  within one expression from left to right, reduced to their first occurrences.
\<close>

definition first_seen :: "'a list \<Rightarrow> 'a list" where
  "first_seen xs = rev (remdups (rev xs))"

definition matched_ids :: "string \<Rightarrow> string list" where
  "matched_ids content =
     concat (map (\<lambda>pattern. map (\<lambda>match. match ! 1) (FindAllStringSubmatch pattern content))
                 youtubePatterns)"

text \<open>The loop state that has recorded exactly the ids \<open>ids\<close>.\<close>

definition seen_of :: "string list \<Rightarrow> (string \<Rightarrow> bool) \<times> string list" where
  "seen_of ids = ((\<lambda>v. v \<in> set ids), map (\<lambda>v. watch_prefix @ v) ids)"

text \<open>The capture groups of an expression: length and character class of each.\<close>

fun cap_groups :: "re_item list \<Rightarrow> (nat \<times> (char \<Rightarrow> bool)) list" where
  "cap_groups [] = []"
| "cap_groups (Cap n p # r) = (n, p) # cap_groups r"
| "cap_groups (_ # r) = cap_groups r"

section \<open>Stripping of markup\<close>

text \<open>
  \<^verbatim>\<open>ReplaceAllString(src, repl)\<close> for a replacement text without \<^verbatim>\<open>$\<close>: every successive
  non-overlapping match is replaced by \<open>repl\<close>, all other bytes are copied. As in
  \<open>FindAllStringSubmatch\<close>, a match that consumes nothing is passed over.
\<close>

function ReplaceAllString :: "re_item list \<Rightarrow> string \<Rightarrow> string \<Rightarrow> string" where
  "ReplaceAllString pat src repl =
     (if src = [] then []
      else case rx_match pat src of
             None \<Rightarrow> hd src # ReplaceAllString pat (tl src) repl
           | Some (caps, rest) \<Rightarrow>
               if length rest < length src
               then repl @ ReplaceAllString pat rest repl
               else hd src # ReplaceAllString pat (tl src) repl)"
  by pat_completeness auto
termination
  by (relation "measure (\<lambda>(pat, src, repl). length src)") auto

declare ReplaceAllString.simps [simp del]

text \<open>
  \<^verbatim>\<open>strings.ReplaceAll(s, old, new)\<close> for a non-empty \<open>old\<close> (the program never passes an
  empty one; the model then copies \<open>s\<close>).
\<close>

function strings_ReplaceAll :: "string \<Rightarrow> string \<Rightarrow> string \<Rightarrow> string" where
  "strings_ReplaceAll s old new =
     (if s = [] then []
      else if old \<noteq> [] \<and> prefix old s
           then new @ strings_ReplaceAll (drop (length old) s) old new
           else hd s # strings_ReplaceAll (tl s) old new)"
  by pat_completeness auto
termination
  by (relation "measure (\<lambda>(s, old, new). length s)") auto

declare strings_ReplaceAll.simps [simp del]

text \<open>
  \<^verbatim>\<open>strings.TrimSpace\<close> removes the leading and trailing code points of
  \<^verbatim>\<open>unicode.IsSpace\<close>: tab, line feed, vertical tab, form feed, carriage return, space,
  U+0085, U+00A0, U+1680, U+2000 to U+200A, U+2028, U+2029, U+202F, U+205F and U+3000,
  listed here in UTF-8.
\<close>

definition space_seqs :: "string list" where
  "space_seqs =
     [[CHR 0x09], [CHR 0x0A], [CHR 0x0B], [CHR 0x0C], [CHR 0x0D], [CHR 0x20],
      [CHR 0xC2, CHR 0x85], [CHR 0xC2, CHR 0xA0],
      [CHR 0xE1, CHR 0x9A, CHR 0x80],
      [CHR 0xE2, CHR 0x80, CHR 0x80], [CHR 0xE2, CHR 0x80, CHR 0x81],
      [CHR 0xE2, CHR 0x80, CHR 0x82], [CHR 0xE2, CHR 0x80, CHR 0x83],
      [CHR 0xE2, CHR 0x80, CHR 0x84], [CHR 0xE2, CHR 0x80, CHR 0x85],
      [CHR 0xE2, CHR 0x80, CHR 0x86], [CHR 0xE2, CHR 0x80, CHR 0x87],
      [CHR 0xE2, CHR 0x80, CHR 0x88], [CHR 0xE2, CHR 0x80, CHR 0x89],
      [CHR 0xE2, CHR 0x80, CHR 0x8A],
      [CHR 0xE2, CHR 0x80, CHR 0xA8], [CHR 0xE2, CHR 0x80, CHR 0xA9],
      [CHR 0xE2, CHR 0x80, CHR 0xAF], [CHR 0xE2, CHR 0x81, CHR 0x9F],
      [CHR 0xE3, CHR 0x80, CHR 0x80]]"

text \<open>\<open>trim_with seqs s\<close> drops leading members of \<open>seqs\<close> from \<open>s\<close> as long as there is one.\<close>

function trim_with :: "string list \<Rightarrow> string \<Rightarrow> string" where
  "trim_with seqs s =
     (case filter (\<lambda>w. w \<noteq> [] \<and> prefix w s) seqs of
        [] \<Rightarrow> s
      | w # _ \<Rightarrow> trim_with seqs (drop (length w) s))"
  by pat_completeness auto
termination
proof (relation "measure (\<lambda>(seqs, s). length s)")
  show "wf (measure (\<lambda>(seqs, s). length s))" by simp
next
  fix seqs :: "string list" and s w ws
  assume "filter (\<lambda>w. w \<noteq> [] \<and> prefix w s) seqs = w # ws"
  then have "w \<in> set (filter (\<lambda>w. w \<noteq> [] \<and> prefix w s) seqs)" by simp
  then have "w \<noteq> []" "prefix w s" by auto
  then have "s \<noteq> []" by auto
  with \<open>w \<noteq> []\<close> show "((seqs, drop (length w) s), (seqs, s)) \<in> measure (\<lambda>(seqs, s). length s)"
    by simp
qed

declare trim_with.simps [simp del]

definition TrimSpace :: "string \<Rightarrow> string" where
  "TrimSpace s = rev (trim_with (map rev space_seqs) (rev (trim_with space_seqs s)))"

text \<open>The class \<^verbatim>\<open>\s\<close> of Go's expressions: tab, line feed, form feed, carriage return, space.\<close>

definition ws_char :: "char \<Rightarrow> bool" where
  "ws_char c \<longleftrightarrow> c \<in> set [CHR 0x09, CHR 0x0A, CHR 0x0C, CHR 0x0D, CHR 0x20]"

definition not_gt :: "char \<Rightarrow> bool" where
  "not_gt c \<longleftrightarrow> c \<noteq> CHR ''>''"

definition scriptTagRe :: "re_item list" where
  "scriptTagRe = [LitFold ''<script'', Many not_gt, Lit ''>'', Lazy, LitFold ''</script>'']"

definition styleTagRe :: "re_item list" where
  "styleTagRe = [LitFold ''<style'', Many not_gt, Lit ''>'', Lazy, LitFold ''</style>'']"

definition htmlTagRe :: "re_item list" where
  "htmlTagRe = [Lit ''<'', One not_gt, Many not_gt, Lit ''>'']"

definition whitespaceRe :: "re_item list" where
  "whitespaceRe = [One ws_char, Many ws_char]"

definition stripHTML :: "string \<Rightarrow> string" where
  "stripHTML html0 =
     (let html1 = ReplaceAllString scriptTagRe html0 '''';
          html2 = ReplaceAllString styleTagRe html1 '''';
          text0 = ReplaceAllString htmlTagRe html2 '''';
          text1 = strings_ReplaceAll text0 ''&nbsp;'' '' '';
          text2 = strings_ReplaceAll text1 ''&amp;'' ''&'';
          text3 = strings_ReplaceAll text2 ''&lt;'' ''<'';
          text4 = strings_ReplaceAll text3 ''&gt;'' ''>'';
          text5 = strings_ReplaceAll text4 ''&quot;'' [CHR 0x22];
          text6 = strings_ReplaceAll text5 ''&#39;'' [CHR 0x27];
          text7 = ReplaceAllString whitespaceRe text6 '' ''
      in TrimSpace text7)"

text \<open>
  A text in which whitespace runs are collapsed: of the class \<^verbatim>\<open>\s\<close> only the space
  occurs, and never twice in a row.
\<close>

definition single_spaced :: "string \<Rightarrow> bool" where
  "single_spaced out \<longleftrightarrow>
     (\<forall>c \<in> set out. ws_char c \<longrightarrow> c = CHR '' '') \<and>
     successively (\<lambda>a b. \<not> (a = CHR '' '' \<and> b = CHR '' '')) out"

section \<open>Data model\<close>

text \<open>
  A \<^verbatim>\<open>time.Time\<close> is modelled by its instant, counted from Go's zero time
  (January 1 of year 1, 00:00:00 UTC), and its location: \<^verbatim>\<open>time.UTC\<close> or a fixed zone
  \<^verbatim>\<open>time.FixedZone(name, offset)\<close>. \<^verbatim>\<open>IsZero\<close> and \<^verbatim>\<open>Before\<close> look at the instant only; the
  location matters for the text the database driver writes for a time. The zero value
  \<^verbatim>\<open>time.Time{}\<close> is the instant 0 in UTC, and so is what \<^verbatim>\<open>time.Parse("2006-01-02", s)\<close>
  gives for a date: an instant in UTC.
  Go's \<^verbatim>\<open>int\<close> is modelled by \<^typ>\<open>int\<close>: the counters of the program stay far from
  the 64-bit bounds.
\<close>

datatype Location = UTC | FixedZone string int

record Time =
  instant :: int
  location :: Location

definition IsZero :: "Time \<Rightarrow> bool" where
  "IsZero t \<longleftrightarrow> instant t = 0"

definition Before :: "Time \<Rightarrow> Time \<Rightarrow> bool" where
  "Before t u \<longleftrightarrow> instant t < instant u"

definition utc :: "int \<Rightarrow> Time" where
  "utc i = \<lparr> instant = i, location = UTC \<rparr>"

subsection \<open>internal/models\<close>

record PostAttributes =
  attr_PostType :: string
  attr_Title :: string
  attr_PatreonURL :: string
  attr_CurrentUserCanView :: bool
  attr_PublishedAt :: Time
  attr_CommenterCount :: int

record PostData =
  data_ID :: string
  data_Type :: string
  data_Attributes :: PostAttributes

text \<open>
  The response of the list endpoint. \<open>client.go\<close> reads \<^verbatim>\<open>Links.Next\<close> of it, so the
  declaration it was compiled with has that field beside \<^verbatim>\<open>Data\<close>.
\<close>

record PatreonResponse =
  resp_Data :: "PostData list"
  resp_Links_Next :: string

record Post =
  ID :: string
  Type :: string
  PostType :: string
  Title :: string
  PatreonURL :: string
  CurrentUserCanView :: bool
  PublishedAt :: Time
  DetailsCached :: bool

definition FromPostData :: "PostData \<Rightarrow> Post" where
  "FromPostData d =
     \<lparr> ID = data_ID d,
       Type = data_Type d,
       PostType = attr_PostType (data_Attributes d),
       Title = attr_Title (data_Attributes d),
       PatreonURL = attr_PatreonURL (data_Attributes d),
       CurrentUserCanView = attr_CurrentUserCanView (data_Attributes d),
       PublishedAt = attr_PublishedAt (data_Attributes d),
       DetailsCached = False \<rparr>"

record PostsPage =
  Posts :: "Post list"
  NextCursor :: string
  HasMore :: bool
  Total :: int

record Embed =
  embed_URL :: string
  embed_Provider :: string
  embed_Description :: string

record PostDetailAttributes =
  dattr_Title :: string
  dattr_Content :: string
  dattr_PostType :: string
  dattr_PublishedAt :: Time
  dattr_Embed :: Embed

record PostDetailData =
  ddata_ID :: string
  ddata_Type :: string
  ddata_Attributes :: PostDetailAttributes

record PostDetailResponse =
  dresp_Data :: PostDetailData

record PostDetails =
  pd_ID :: string
  pd_Title :: string
  pd_Content :: string
  pd_Description :: string
  pd_PostType :: string
  pd_PublishedAt :: Time
  pd_YouTubeLinks :: "string list"

subsection \<open>Library functions the program calls\<close>

text \<open>
  The functions of Go's standard library and of the terminal toolkit that the modelled
  code calls are parameters:
  \<^item> \<open>url_Parse\<close>: \<^verbatim>\<open>url.Parse\<close>, \<open>None\<close> for an error, else the raw query of the URL;
  \<^item> \<open>url_Query\<close>: \<^verbatim>\<open>parsed.Query()\<close> as a function of the raw query: the
    \<^verbatim>\<open>url.Values\<close>, a \<^verbatim>\<open>map[string][]string\<close> from each parameter of the query to its values;
  \<^item> \<open>json_Unmarshal\<close>: \<^verbatim>\<open>json.Unmarshal\<close> into a \<^verbatim>\<open>[]string\<close>: the value left in the
    target and whether the error is nil;
  \<^item> \<open>json_Marshal\<close>: \<^verbatim>\<open>json.Marshal\<close> of a \<^verbatim>\<open>[]string\<close>;
  \<^item> \<open>clipboard_WriteAll\<close>: whether writing to the system clipboard succeeds;
  \<^item> \<open>input_Update\<close>: the value of the text input after a key;
  \<^item> \<open>time_scans\<close>: whether \<^verbatim>\<open>database/sql\<close> and the SQLite driver can scan back, into a
    \<^verbatim>\<open>sql.NullTime\<close>, the column value the driver wrote when this time was bound as a
    parameter of a statement.
\<close>

record libs =
  url_Parse :: "string \<Rightarrow> string option"
  url_Query :: "string \<Rightarrow> string \<rightharpoonup> string list"
  json_Unmarshal :: "string \<Rightarrow> string list \<times> bool"
  json_Marshal :: "string list \<Rightarrow> string"
  clipboard_WriteAll :: "string \<Rightarrow> bool"
  input_Update :: "string \<Rightarrow> string \<Rightarrow> string"
  time_scans :: "Time \<Rightarrow> bool"

text \<open>
  \<^verbatim>\<open>Values.Get\<close> of net/url: the first value of the key, the empty string when the key
  has no value.
\<close>

definition Values_Get :: "(string \<rightharpoonup> string list) \<Rightarrow> string \<Rightarrow> string" where
  "Values_Get v key =
     (case v key of
        None \<Rightarrow> []
      | Some vs \<Rightarrow> (case vs of [] \<Rightarrow> [] | x # rest \<Rightarrow> x))"

section \<open>Local cache store\<close>

text \<open>
  The table \<^verbatim>\<open>posts\<close> of internal/db/database.go, keyed by its primary key \<^verbatim>\<open>id\<close>. The
  columns \<^verbatim>\<open>description\<close> and \<^verbatim>\<open>youtube_links\<close> can be NULL (\<open>None\<close>); the others are
  only ever written with the non-null values \<open>SavePost\<close> binds. Each writing function is
  the effect of its one SQL statement; \<^verbatim>\<open>CURRENT_TIMESTAMP\<close> is the argument \<open>now\<close>, a time
  in UTC that SQLite writes itself. Failures of the storage engine (a closed or locked
  file) are outside the model, so the error result of the writing functions is always
  nil and is left out. Reading a row back can fail inside the model: \<open>GetPost\<close> scans
  the column \<^verbatim>\<open>published_at\<close> into a \<^verbatim>\<open>sql.NullTime\<close>, and returns the error of \<^verbatim>\<open>row.Scan\<close>
  when the driver cannot read back what it wrote for the publish time.
  \<open>IsPostDetailsCached\<close> scans the boolean column only.
\<close>

record PostRow =
  row_campaign_id :: string
  row_type :: string
  row_post_type :: string
  row_title :: string
  row_patreon_url :: string
  row_current_user_can_view :: bool
  row_published_at :: Time
  row_description :: "string option"
  row_youtube_links :: "string option"
  row_cached_at :: Time
  row_details_cached :: bool

type_synonym Database = "string \<rightharpoonup> PostRow"

record CachedPost =
  cp_ID :: string
  cp_CampaignID :: string
  cp_Type :: string
  cp_PostType :: string
  cp_Title :: string
  cp_PatreonURL :: string
  cp_CurrentUserCanView :: bool
  cp_PublishedAt :: Time
  cp_Description :: string
  cp_YouTubeLinks :: string
  cp_CachedAt :: Time
  cp_DetailsCached :: bool

definition SavePost :: "Time \<Rightarrow> Database \<Rightarrow> CachedPost \<Rightarrow> Database" where
  "SavePost now d post =
     d(cp_ID post \<mapsto>
        (case d (cp_ID post) of
           None \<Rightarrow>
             \<lparr> row_campaign_id = cp_CampaignID post,
               row_type = cp_Type post,
               row_post_type = cp_PostType post,
               row_title = cp_Title post,
               row_patreon_url = cp_PatreonURL post,
               row_current_user_can_view = cp_CurrentUserCanView post,
               row_published_at = cp_PublishedAt post,
               row_description = None,
               row_youtube_links = None,
               row_cached_at = now,
               row_details_cached = False \<rparr>
         | Some r \<Rightarrow>
             r\<lparr> row_type := cp_Type post,
                row_post_type := cp_PostType post,
                row_title := cp_Title post,
                row_patreon_url := cp_PatreonURL post,
                row_current_user_can_view := cp_CurrentUserCanView post,
                row_published_at := cp_PublishedAt post,
                row_cached_at := now \<rparr>))"

definition SavePostDetails :: "Database \<Rightarrow> string \<Rightarrow> string \<Rightarrow> string \<Rightarrow> Database" where
  "SavePostDetails d postID description youtubeLinks =
     (case d postID of
        None \<Rightarrow> d
      | Some r \<Rightarrow>
          d(postID \<mapsto> r\<lparr> row_description := Some description,
                          row_youtube_links := Some youtubeLinks,
                          row_details_cached := True \<rparr>))"

text \<open>
  The results of \<open>GetPost\<close>: \<^verbatim>\<open>(nil, err)\<close> is \<open>Inl\<close>, \<^verbatim>\<open>(nil, nil)\<close> for an id without a
  row is \<open>Inr None\<close>, and \<^verbatim>\<open>(&post, nil)\<close> is \<open>Inr (Some post)\<close>.
\<close>

datatype db_error = ScanError

definition GetPost :: "libs \<Rightarrow> Database \<Rightarrow> string \<Rightarrow> db_error + CachedPost option" where
  "GetPost L d postID =
     (case d postID of
        None \<Rightarrow> Inr None
      | Some r \<Rightarrow>
          if \<not> time_scans L (row_published_at r) then Inl ScanError
          else Inr (Some \<lparr> cp_ID = postID,
                 cp_CampaignID = row_campaign_id r,
                 cp_Type = row_type r,
                 cp_PostType = row_post_type r,
                 cp_Title = row_title r,
                 cp_PatreonURL = row_patreon_url r,
                 cp_CurrentUserCanView = row_current_user_can_view r,
                 cp_PublishedAt = row_published_at r,
                 cp_Description = (case row_description r of None \<Rightarrow> [] | Some s \<Rightarrow> s),
                 cp_YouTubeLinks = (case row_youtube_links r of None \<Rightarrow> [] | Some s \<Rightarrow> s),
                 cp_CachedAt = row_cached_at r,
                 cp_DetailsCached = row_details_cached r \<rparr>))"

definition IsPostDetailsCached :: "Database \<Rightarrow> string \<Rightarrow> bool" where
  "IsPostDetailsCached d postID =
     (case d postID of None \<Rightarrow> False | Some r \<Rightarrow> row_details_cached r)"

definition ClearPostDetails :: "Database \<Rightarrow> string \<Rightarrow> Database" where
  "ClearPostDetails d postID =
     (case d postID of
        None \<Rightarrow> d
      | Some r \<Rightarrow>
          d(postID \<mapsto> r\<lparr> row_description := None,
                          row_youtube_links := None,
                          row_details_cached := False \<rparr>))"

section \<open>Requests to the remote source\<close>

text \<open>The errors of the client; the texts of their messages are left out.\<close>

datatype api_error = RequestFailed | StatusError nat | ReadFailed | ParseFailed

text \<open>
  What the remote source answers to one request: the status code and the body, which
  cannot be read, or is read and is not the JSON of the expected shape, or is read and
  decoded by \<^verbatim>\<open>json.Unmarshal\<close> to a value.
\<close>

datatype 'a body = Unreadable | Malformed | Json 'a

record 'a http_response =
  StatusCode :: nat
  Body :: "'a body"

text \<open>The calls of the client, logged with their arguments.\<close>

datatype call = FetchPostsCall string int string | FetchPostDetailsCall string

text \<open>
  The remote source: its answer to a request may depend on the calls made before. The
  list endpoint is asked with campaign id, page count and the \<^verbatim>\<open>page[cursor]\<close> parameter,
  the detail endpoint with the post id. \<open>None\<close>: the request fails before an answer arrives.
\<close>

record remote =
  list_posts :: "call list \<Rightarrow> string \<Rightarrow> int \<Rightarrow> string \<Rightarrow> PatreonResponse http_response option"
  post_detail :: "call list \<Rightarrow> string \<Rightarrow> PostDetailResponse http_response option"

definition extractCursorFromURL :: "libs \<Rightarrow> string \<Rightarrow> string" where
  "extractCursorFromURL L nextURL =
     (if nextURL = [] then []
      else case url_Parse L nextURL of
             None \<Rightarrow> []
           | Some rawQuery \<Rightarrow> Values_Get (url_Query L rawQuery) ''page[cursor]'')"

definition FetchPosts :: "libs \<Rightarrow> remote \<Rightarrow> call list \<Rightarrow> string \<Rightarrow> int \<Rightarrow> string \<Rightarrow> api_error + PostsPage" where
  "FetchPosts L R hist campaignID count cursor =
     (let page_cursor = (if cursor = [] then ''null'' else cursor) in
      case list_posts R hist campaignID count page_cursor of
        None \<Rightarrow> Inl RequestFailed
      | Some resp \<Rightarrow>
          if StatusCode resp \<noteq> 200
          then Inl (StatusError (StatusCode resp))
          else case Body resp of
                 Unreadable \<Rightarrow> Inl ReadFailed
               | Malformed \<Rightarrow> Inl ParseFailed
               | Json patreonResp \<Rightarrow>
                        (let posts = map FromPostData (resp_Data patreonResp);
                             nextCursor = extractCursorFromURL L (resp_Links_Next patreonResp);
                             hasMore = (resp_Links_Next patreonResp \<noteq> [])
                         in Inr \<lparr> Posts = posts, NextCursor = nextCursor,
                                  HasMore = hasMore, Total = 0 \<rparr>))"

definition FetchPostDetails :: "remote \<Rightarrow> call list \<Rightarrow> string \<Rightarrow> api_error + PostDetails" where
  "FetchPostDetails R hist postID =
     (case post_detail R hist postID of
        None \<Rightarrow> Inl RequestFailed
      | Some resp \<Rightarrow>
          if StatusCode resp \<noteq> 200
          then Inl (StatusError (StatusCode resp))
          else case Body resp of
                 Unreadable \<Rightarrow> Inl ReadFailed
               | Malformed \<Rightarrow> Inl ParseFailed
               | Json detailResp \<Rightarrow>
                        (let a = ddata_Attributes (dresp_Data detailResp);
                             content = dattr_Content a;
                             allContent = (if embed_URL (dattr_Embed a) \<noteq> []
                                           then content @ '' '' @ embed_URL (dattr_Embed a)
                                           else content)
                         in Inr \<lparr> pd_ID = ddata_ID (dresp_Data detailResp),
                                  pd_Title = dattr_Title a,
                                  pd_Content = content,
                                  pd_Description = stripHTML content,
                                  pd_PostType = dattr_PostType a,
                                  pd_PublishedAt = dattr_PublishedAt a,
                                  pd_YouTubeLinks = ExtractYouTubeLinks allContent \<rparr>))"

section \<open>Batch extraction workflow\<close>

text \<open>
  The state \<open>extractLinksFromCampaign\<close> works on: the store and the log of the calls made
  to the client. Printing and the sleeps between requests are left out.
\<close>

record batch_state =
  store :: Database
  calls :: "call list"

text \<open>
  The loop over the posts of one page. The first component of the result tells whether
  the loop left the whole function through the early \<^verbatim>\<open>return allLinks, nil\<close>.
\<close>

fun process_posts ::
  "libs \<Rightarrow> remote \<Rightarrow> Time \<Rightarrow> Post list \<Rightarrow> batch_state \<Rightarrow> string list \<Rightarrow> bool \<times> batch_state \<times> string list" where
  "process_posts L R filterDate [] st allLinks = (False, st, allLinks)"
| "process_posts L R filterDate (post # rest) st allLinks =
     (if \<not> IsZero filterDate \<and> Before (PublishedAt post) filterDate
      then (True, st, allLinks)
      else case (case GetPost L (store st) (ID post) of
                   Inl e \<Rightarrow> None
                 | Inr None \<Rightarrow> None
                 | Inr (Some cached) \<Rightarrow> if cp_DetailsCached cached then Some cached else None) of
             Some cached \<Rightarrow>
               process_posts L R filterDate rest st
                 (if cp_YouTubeLinks cached \<noteq> []
                  then (case json_Unmarshal L (cp_YouTubeLinks cached) of
                          (links, ok) \<Rightarrow> if ok then allLinks @ links else allLinks)
                  else allLinks)
           | None \<Rightarrow>
               (let st1 = st\<lparr> calls := calls st @ [FetchPostDetailsCall (ID post)] \<rparr> in
                case FetchPostDetails R (calls st) (ID post) of
                  Inl err \<Rightarrow> process_posts L R filterDate rest st1 allLinks
                | Inr details \<Rightarrow>
                    (let linksJSON = json_Marshal L (pd_YouTubeLinks details);
                         st2 = st1\<lparr> store := SavePostDetails (store st1) (ID post)
                                                   (pd_Description details) linksJSON \<rparr>
                     in process_posts L R filterDate rest st2
                          (allLinks @ pd_YouTubeLinks details))))"

text \<open>
  The pagination loop, with the number of pages it may fetch as fuel: the remote source
  can hand out next cursors for ever. The result is the state reached and, when the
  function has returned, its two results (the links and the error).
\<close>

fun extract_loop ::
  "nat \<Rightarrow> libs \<Rightarrow> remote \<Rightarrow> string \<Rightarrow> Time \<Rightarrow> batch_state \<Rightarrow> string \<Rightarrow> string list
     \<Rightarrow> batch_state \<times> (string list \<times> api_error option) option" where
  "extract_loop 0 L R campaignID filterDate st cursor allLinks = (st, None)"
| "extract_loop (Suc fuel) L R campaignID filterDate st cursor allLinks =
     (let st1 = st\<lparr> calls := calls st @ [FetchPostsCall campaignID 50 cursor] \<rparr> in
      case FetchPosts L R (calls st) campaignID 50 cursor of
        Inl err \<Rightarrow> (st1, Some (allLinks, Some err))
      | Inr page \<Rightarrow>
          (case process_posts L R filterDate (Posts page) st1 allLinks of
             (stopped, st2, allLinks2) \<Rightarrow>
               if stopped then (st2, Some (allLinks2, None))
               else if \<not> HasMore page \<or> NextCursor page = [] then (st2, Some (allLinks2, None))
               else extract_loop fuel L R campaignID filterDate st2 (NextCursor page) allLinks2))"

definition extractLinksFromCampaign ::
  "nat \<Rightarrow> libs \<Rightarrow> remote \<Rightarrow> Database \<Rightarrow> string \<Rightarrow> Time
     \<Rightarrow> batch_state \<times> (string list \<times> api_error option) option" where
  "extractLinksFromCampaign fuel L R database campaignID filterDate =
     extract_loop fuel L R campaignID filterDate \<lparr> store = database, calls = [] \<rparr> [] []"

text \<open>The cursors of the list requests in a log of calls, in the order of the calls.\<close>

fun list_cursors :: "call list \<Rightarrow> string list" where
  "list_cursors [] = []"
| "list_cursors (FetchPostsCall campaignID count cursor # cs) = cursor # list_cursors cs"
| "list_cursors (FetchPostDetailsCall postID # cs) = list_cursors cs"

section \<open>A reference instance of the library functions\<close>

text \<open>
  For evaluating the program on concrete inputs, an instance of \<^typ>\<open>libs\<close>. It agrees
  with Go on the inputs it is used on below: absolute URLs with a well-formed host and
  path (\<^verbatim>\<open>url.Parse\<close> rejects any URL with an ASCII control byte; the query is what lies
  between the first \<^verbatim>\<open>?\<close> and the fragment; \<^verbatim>\<open>Query\<close> drops pairs with a semicolon or a
  malformed escape), and arrays of strings written without whitespace and without
  characters that JSON escapes.
\<close>

definition ctl_byte :: "char \<Rightarrow> bool" where
  "ctl_byte c \<longleftrightarrow> (of_char c :: nat) < 0x20 \<or> (of_char c :: nat) = 0x7F"

definition ref_url_Parse :: "string \<Rightarrow> string option" where
  "ref_url_Parse rawURL =
     (if list_ex ctl_byte rawURL then None
      else (let rest = takeWhile (\<lambda>c. c \<noteq> CHR ''#'') rawURL
            in Some (drop 1 (dropWhile (\<lambda>c. c \<noteq> CHR ''?'') rest))))"

fun split_on :: "char \<Rightarrow> string \<Rightarrow> string list" where
  "split_on sep [] = [[]]"
| "split_on sep (c # cs) =
     (if c = sep then [] # split_on sep cs
      else (case split_on sep cs of [] \<Rightarrow> [[c]] | p # ps \<Rightarrow> (c # p) # ps))"

definition hex_val :: "char \<Rightarrow> nat option" where
  "hex_val c = map_of (zip ''0123456789abcdefABCDEF'' ([0 ..< 16] @ [10 ..< 16])) c"

fun QueryUnescape :: "string \<Rightarrow> string option" where
  "QueryUnescape [] = Some []"
| "QueryUnescape (c # cs) =
     (if c = CHR ''%''
      then (case cs of
              a # b # r \<Rightarrow>
                (case (hex_val a, hex_val b) of
                   (Some x, Some y) \<Rightarrow> map_option ((#) (char_of (16 * x + y))) (QueryUnescape r)
                 | _ \<Rightarrow> None)
            | _ \<Rightarrow> None)
      else map_option ((#) (if c = CHR ''+'' then CHR '' '' else c)) (QueryUnescape cs))"

definition ParseQuery :: "string \<Rightarrow> (string \<times> string) list" where
  "ParseQuery query =
     concat (map (\<lambda>pair.
        if pair = [] \<or> CHR '';'' \<in> set pair then []
        else (case (QueryUnescape (takeWhile (\<lambda>c. c \<noteq> CHR ''='') pair),
                    QueryUnescape (drop 1 (dropWhile (\<lambda>c. c \<noteq> CHR ''='') pair))) of
                (Some k, Some v) \<Rightarrow> [(k, v)]
              | _ \<Rightarrow> []))
        (split_on CHR ''&'' query))"

definition ref_url_Query :: "string \<Rightarrow> string \<rightharpoonup> string list" where
  "ref_url_Query rawQuery key =
     (case map snd (filter (\<lambda>kv. fst kv = key) (ParseQuery rawQuery)) of
        [] \<Rightarrow> None
      | v # vs \<Rightarrow> Some (v # vs))"

definition json_plain :: "char \<Rightarrow> bool" where
  "json_plain c \<longleftrightarrow> c \<noteq> CHR 0x22 \<and> c \<noteq> CHR 0x5C"

function parse_items :: "string \<Rightarrow> string list option" where
  "parse_items s =
     (case s of
        [] \<Rightarrow> None
      | q # body \<Rightarrow>
          if q \<noteq> CHR 0x22 then None
          else (let str = takeWhile json_plain body; rest = dropWhile json_plain body
                in if rest = [CHR 0x22, CHR '']''] then Some [str]
                   else if take 2 rest = [CHR 0x22, CHR '',''] \<and> length rest < length s
                        then map_option ((#) str) (parse_items (drop 2 rest))
                        else None))"
  by pat_completeness auto
termination
  by (relation "measure length") auto

declare parse_items.simps [simp del]

definition ref_json_Unmarshal :: "string \<Rightarrow> string list \<times> bool" where
  "ref_json_Unmarshal s =
     (if s = ''null'' \<or> s = ''[]'' then ([], True)
      else if take 1 s = ''[''
           then (case parse_items (drop 1 s) of None \<Rightarrow> ([], False) | Some xs \<Rightarrow> (xs, True))
           else ([], False))"

fun join_items :: "string list \<Rightarrow> string" where
  "join_items [] = []"
| "join_items [x] = CHR 0x22 # x @ [CHR 0x22]"
| "join_items (x # y # ys) = CHR 0x22 # x @ [CHR 0x22, CHR '',''] @ join_items (y # ys)"

text \<open>The program only marshals results of \<open>ExtractYouTubeLinks\<close>, whose empty result is a nil slice.\<close>

definition ref_json_Marshal :: "string list \<Rightarrow> string" where
  "ref_json_Marshal links = (if links = [] then ''null'' else ''['' @ join_items links @ '']'')"


text \<open>
  The driver writes a bound \<^verbatim>\<open>time.Time\<close> as the text of its \<^verbatim>\<open>String()\<close> and reads a
  \<^verbatim>\<open>DATETIME\<close> column back by parsing that format. For a time in UTC the text ends in
  \<^verbatim>\<open>+0000 UTC\<close> and is read back; for a time in a fixed zone without a name, which is what
  decoding a JSON timestamp with a numeric offset gives, the text repeats the offset in
  place of the zone name (\<^verbatim>\<open>+0200 +0200\<close>), the driver hands the text through as a string
  and \<^verbatim>\<open>Scan\<close> fails to store it in the \<^verbatim>\<open>sql.NullTime\<close>. The instance decides these two
  kinds of times, the only ones used below, and lets no other fixed zone scan.
\<close>

definition ref_time_scans :: "Time \<Rightarrow> bool" where
  "ref_time_scans t \<longleftrightarrow> location t = UTC"

definition ref_libs :: libs where
  "ref_libs =
     \<lparr> url_Parse = ref_url_Parse,
       url_Query = ref_url_Query,
       json_Unmarshal = ref_json_Unmarshal,
       json_Marshal = ref_json_Marshal,
       clipboard_WriteAll = (\<lambda>text. True),
       input_Update = (\<lambda>v key. if length key = 1 \<and> length v < 20 then v @ key else v),
       time_scans = ref_time_scans \<rparr>"

text \<open>
  A remote source that answers from two tables: the list endpoint by the
  \<^verbatim>\<open>page[cursor]\<close> parameter of the request, the detail endpoint by the post id; a
  request that is in neither fails.
\<close>

definition ok_response :: "'a \<Rightarrow> 'a http_response" where
  "ok_response x = \<lparr> StatusCode = 200, Body = Json x \<rparr>"

definition table_remote ::
  "(string \<times> PatreonResponse http_response) list \<Rightarrow> (string \<times> PostDetailResponse http_response) list \<Rightarrow> remote" where
  "table_remote pages details =
     \<lparr> list_posts = (\<lambda>hist campaignID count page_cursor. map_of pages page_cursor),
       post_detail = (\<lambda>hist postID. map_of details postID) \<rparr>"

section \<open>Example data\<close>

definition example_row :: PostRow where
  "example_row =
     \<lparr> row_campaign_id = ''c1'', row_type = ''post'', row_post_type = ''text_only'',
       row_title = ''Old title'', row_patreon_url = ''https://www.patreon.com/posts/1'',
       row_current_user_can_view = False, row_published_at = utc 100,
       row_description = Some ''Hello'', row_youtube_links = Some ''null'',
       row_cached_at = utc 200, row_details_cached = True \<rparr>"

definition example_store :: Database where
  "example_store = [''p1'' \<mapsto> example_row]"

definition example_post :: CachedPost where
  "example_post =
     \<lparr> cp_ID = ''p1'', cp_CampaignID = ''c2'', cp_Type = ''post'', cp_PostType = ''video_embed'',
       cp_Title = ''New title'', cp_PatreonURL = ''https://www.patreon.com/posts/1-new'',
       cp_CurrentUserCanView = True, cp_PublishedAt = utc 150,
       cp_Description = [], cp_YouTubeLinks = [], cp_CachedAt = utc 0, cp_DetailsCached = False \<rparr>"


text \<open>A list response without posts whose next link has no \<^verbatim>\<open>page[cursor]\<close> parameter.\<close>

definition cursorless_response :: PatreonResponse where
  "cursorless_response =
     \<lparr> resp_Data = [], resp_Links_Next = ''https://www.patreon.com/api/campaigns/1/posts'' \<rparr>"

definition cursorless_remote :: remote where
  "cursorless_remote = table_remote [(''null'', ok_response cursorless_response)] []"

text \<open>A list response whose next link carries the cursor \<^verbatim>\<open>01H\<close>, percent-encoded as the remote source sends it.\<close>

definition linked_response :: PatreonResponse where
  "linked_response =
     \<lparr> resp_Data = [],
       resp_Links_Next = ''https://www.patreon.com/api/campaigns/1/posts?page%5Bcount%5D=20&page%5Bcursor%5D=01H'' \<rparr>"

definition linked_remote :: remote where
  "linked_remote = table_remote [(''null'', ok_response linked_response)] []"

text \<open>
  The second end-to-end scenario of the specification: the cutoff is 2024-01-01 and the
  first page of the campaign has a post of 2024-06-01 and a post of 2023-12-01 (instants
  in seconds since the zero time). The first page links to a second one, which the
  remote source would serve.
\<close>

definition cutoff_2024_01_01 :: Time where
  "cutoff_2024_01_01 = utc 63839664000"

definition post_data :: "string \<Rightarrow> Time \<Rightarrow> PostData" where
  "post_data pid published =
     \<lparr> data_ID = pid, data_Type = ''post'',
       data_Attributes =
         \<lparr> attr_PostType = ''video_embed'', attr_Title = ''A post'',
           attr_PatreonURL = ''https://www.patreon.com/posts/'' @ pid,
           attr_CurrentUserCanView = True, attr_PublishedAt = published,
           attr_CommenterCount = 0 \<rparr> \<rparr>"

definition scenario_page1 :: PatreonResponse where
  "scenario_page1 =
     \<lparr> resp_Data = [post_data ''p1'' (utc 63852796800), post_data ''p2'' (utc 63836985600)],
       resp_Links_Next = ''https://www.patreon.com/api/campaigns/camp1/posts?page%5Bcursor%5D=c2'' \<rparr>"

definition scenario_page2 :: PatreonResponse where
  "scenario_page2 = \<lparr> resp_Data = [post_data ''p3'' (utc 63830000000)], resp_Links_Next = [] \<rparr>"

definition scenario_detail :: "string \<Rightarrow> PostDetailResponse" where
  "scenario_detail pid =
     \<lparr> dresp_Data =
         \<lparr> ddata_ID = pid, ddata_Type = ''post'',
           ddata_Attributes =
             \<lparr> dattr_Title = ''A post'',
               dattr_Content = ''<p>Watch https://youtu.be/dQw4w9WgXcQ</p>'',
               dattr_PostType = ''video_embed'', dattr_PublishedAt = utc 63852796800,
               dattr_Embed = \<lparr> embed_URL = [], embed_Provider = [], embed_Description = [] \<rparr> \<rparr> \<rparr> \<rparr>"

definition scenario_remote :: remote where
  "scenario_remote =
     table_remote
       [(''null'', ok_response scenario_page1), (''c2'', ok_response scenario_page2)]
       [(''p1'', ok_response (scenario_detail ''p1'')), (''p2'', ok_response (scenario_detail ''p2'')),
        (''p3'', ok_response (scenario_detail ''p3''))]"

text \<open>
  The cutoff 0001-01-01, which \<^verbatim>\<open>time.Parse("2006-01-02", "0001-01-01")\<close> reads as the zero
  time, and a campaign whose first page has a post dated the day before it and links to
  a second page.
\<close>

definition zero_cutoff :: Time where
  "zero_cutoff = utc 0"

definition ancient_page1 :: PatreonResponse where
  "ancient_page1 =
     \<lparr> resp_Data = [post_data ''p0'' (utc (- 86400))],
       resp_Links_Next = ''https://www.patreon.com/api/campaigns/camp1/posts?page%5Bcursor%5D=c2'' \<rparr>"

definition ancient_remote :: remote where
  "ancient_remote =
     table_remote
       [(''null'', ok_response ancient_page1), (''c2'', ok_response scenario_page2)]
       [(''p0'', ok_response (scenario_detail ''p0'')), (''p3'', ok_response (scenario_detail ''p3''))]"

text \<open>
  A post whose publish time is in a fixed zone two hours east of UTC, as decoding the
  timestamp \<^verbatim>\<open>2024-06-01T02:00:00+02:00\<close> gives it, and the store after saving it.
\<close>

definition zoned_post :: CachedPost where
  "zoned_post = example_post\<lparr> cp_PublishedAt := \<lparr> instant = 63852796800, location = FixedZone [] 7200 \<rparr> \<rparr>"


section \<open>Interactive browser\<close>

text \<open>
  The model of internal/ui/app.go without its presentation: the spinner and the viewport
  are left out, the text input is its value, and the texts of the loading and status
  messages are the constructors below. The store handle \<^verbatim>\<open>m.database\<close> is a pointer
  shared with the rest of the program, so the store is passed to \<open>Update\<close> and returned
  by it beside the model (\<open>None\<close> is the nil pointer). A command is returned as a
  description of what the runtime is to run; an index or slice expression out of range
  is a panic.
\<close>

datatype viewState = stateInput | stateLoading | stateList | stateDetails | stateError

datatype loading =
    NoLoading | FetchingPosts | FetchingPostDetails | RefreshingPosts | ForceRefreshingPosts
  | LoadingPage int | ForceRefreshingPostDetails | Retrying

datatype status =
    NoStatus | CopiedLinks nat | CopyFailed | ClipboardIsEmpty | RemovedLink | ClearedClipboard
  | LinkAlreadyInClipboard | AddedLink | AddedLinks int | AllLinksAlreadyInClipboard

datatype Msg =
    KeyMsg string
  | WindowSizeMsg int int
  | PostsFetchedMsg "Post list" string bool int "api_error option"
  | PostDetailsFetchedMsg "PostDetails option" "api_error option"
  | SpinnerTickMsg
  | OtherMsg

datatype Cmd =
    CmdNone | CmdQuit | CmdBlink | CmdWidget
  | CmdFetchPosts string
  | CmdFetchPostDetails string

datatype panic = IndexOutOfRange | SliceBoundsOutOfRange

record Model =
  state :: viewState
  posts :: "Post list"
  cursor :: int
  inputValue :: string
  err :: "api_error option"
  width :: int
  height :: int
  campaignID :: string
  loadingMsg :: loading
  postDetails :: "PostDetails option"
  cachedDetails :: "CachedPost option"
  clipboardLinks :: "string list"
  clipboardCursor :: int
  linkCursor :: int
  statusMessage :: status
  currentPage :: int
  nextCursor :: string
  cursorHistory :: "string list"
  totalPosts :: int
  hasMorePages :: bool

definition NewModel :: Model where
  "NewModel =
     \<lparr> state = stateInput, posts = [], cursor = 0, inputValue = [], err = None,
       width = 80, height = 24, campaignID = [], loadingMsg = NoLoading,
       postDetails = None, cachedDetails = None, clipboardLinks = [], clipboardCursor = 0,
       linkCursor = 0, statusMessage = NoStatus, currentPage = 1, nextCursor = [],
       cursorHistory = [], totalPosts = 0, hasMorePages = False \<rparr>"

type_synonym update_result = "panic + (Database option \<times> Model \<times> Cmd)"

definition index_at :: "'a list \<Rightarrow> int \<Rightarrow> panic + 'a" where
  "index_at xs i = (if 0 \<le> i \<and> i < int (length xs) then Inr (xs ! nat i) else Inl IndexOutOfRange)"

text \<open>
  The cursor of the page on display, as the refresh and the retry compute it: empty for
  page 1, else the last entry of the history.
\<close>

definition page_cursor :: "Model \<Rightarrow> string" where
  "page_cursor m =
     (if currentPage m > 1 \<and> length (cursorHistory m) > 0 then last (cursorHistory m) else [])"

text \<open>The bodies of the cases of \<open>handleListKeys\<close>, then the function itself.\<close>

definition list_enter :: "libs \<Rightarrow> Database option \<Rightarrow> Model \<Rightarrow> update_result" where
  "list_enter L db m =
     (if length (posts m) > 0 then
        (case index_at (posts m) (cursor m) of
           Inl p \<Rightarrow> Inl p
         | Inr post \<Rightarrow>
             (case (case db of
                      None \<Rightarrow> None
                    | Some d \<Rightarrow>
                        if DetailsCached post
                        then (case GetPost L d (ID post) of
                                Inl e \<Rightarrow> None
                              | Inr None \<Rightarrow> None
                              | Inr (Some cached) \<Rightarrow>
                                  if cp_DetailsCached cached then Some cached else None)
                        else None) of
                Some cached \<Rightarrow>
                  Inr (db,
                       m\<lparr> cachedDetails := Some cached,
                          postDetails := Some
                            \<lparr> pd_ID = cp_ID cached, pd_Title = cp_Title cached, pd_Content = [],
                              pd_Description = cp_Description cached, pd_PostType = [],
                              pd_PublishedAt = utc 0,
                              pd_YouTubeLinks =
                                (if cp_YouTubeLinks cached \<noteq> []
                                 then fst (json_Unmarshal L (cp_YouTubeLinks cached)) else []) \<rparr>,
                          linkCursor := 0,
                          state := stateDetails \<rparr>,
                       CmdNone)
              | None \<Rightarrow>
                  Inr (db, m\<lparr> state := stateLoading, loadingMsg := FetchingPostDetails \<rparr>,
                       CmdFetchPostDetails (ID post))))
      else Inr (db, m, CmdNone))"

definition list_next_page :: "Database option \<Rightarrow> Model \<Rightarrow> update_result" where
  "list_next_page db m =
     (if hasMorePages m \<and> nextCursor m \<noteq> [] then
        (let h1 = (if currentPage m = 1 then cursorHistory m @ [[]] else cursorHistory m);
             h2 = h1 @ [nextCursor m]
         in Inr (db, m\<lparr> cursorHistory := h2, currentPage := currentPage m + 1,
                        state := stateLoading, loadingMsg := LoadingPage (currentPage m + 1) \<rparr>,
                 CmdFetchPosts (nextCursor m)))
      else Inr (db, m, CmdNone))"

definition list_previous_page :: "Database option \<Rightarrow> Model \<Rightarrow> update_result" where
  "list_previous_page db m =
     (if currentPage m > 1 \<and> length (cursorHistory m) > 0 then
        (let h = butlast (cursorHistory m);
             c = (if length h > 0 then last h else [])
         in Inr (db, m\<lparr> currentPage := currentPage m - 1, cursorHistory := h,
                        state := stateLoading, loadingMsg := LoadingPage (currentPage m - 1) \<rparr>,
                 CmdFetchPosts c))
      else Inr (db, m, CmdNone))"

definition handleListKeys :: "libs \<Rightarrow> Database option \<Rightarrow> Model \<Rightarrow> string \<Rightarrow> update_result" where
  "handleListKeys L db m key =
     (if key = ''up'' \<or> key = ''k'' then
        Inr (db, (if cursor m > 0 then m\<lparr> cursor := cursor m - 1 \<rparr> else m), CmdNone)
      else if key = ''down'' \<or> key = ''j'' then
        Inr (db, (if cursor m < int (length (posts m)) - 1 then m\<lparr> cursor := cursor m + 1 \<rparr> else m),
             CmdNone)
      else if key = ''enter'' then list_enter L db m
      else if key = ''r'' then
        Inr (db, m\<lparr> state := stateLoading, loadingMsg := RefreshingPosts \<rparr>,
             CmdFetchPosts (page_cursor m))
      else if key = ''R'' then
        Inr (db, m\<lparr> currentPage := 1, cursorHistory := [], state := stateLoading,
                    loadingMsg := ForceRefreshingPosts \<rparr>,
             CmdFetchPosts [])
      else if key = ''n'' \<or> key = ''l'' \<or> key = ''right'' then list_next_page db m
      else if key = ''p'' \<or> key = ''h'' \<or> key = ''left'' then list_previous_page db m
      else if key = ''esc'' then
        Inr (db, m\<lparr> state := stateInput, inputValue := [] \<rparr>, CmdBlink)
      else Inr (db, m, CmdNone))"

text \<open>The bodies of the cases of \<open>handleDetailsKeys\<close>, then the function itself.\<close>

definition details_force_refresh :: "Database option \<Rightarrow> Model \<Rightarrow> update_result" where
  "details_force_refresh db m =
     (if length (posts m) > 0 then
        (case index_at (posts m) (cursor m) of
           Inl p \<Rightarrow> Inl p
         | Inr post \<Rightarrow>
             (case db of
                None \<Rightarrow>
                  Inr (None, m\<lparr> state := stateLoading, loadingMsg := ForceRefreshingPostDetails \<rparr>,
                       CmdFetchPostDetails (ID post))
              | Some d \<Rightarrow>
                  Inr (Some (ClearPostDetails d (ID post)),
                       m\<lparr> posts := (posts m)[nat (cursor m) := post\<lparr> DetailsCached := False \<rparr>],
                          state := stateLoading, loadingMsg := ForceRefreshingPostDetails \<rparr>,
                       CmdFetchPostDetails (ID post))))
      else Inr (db, m, CmdNone))"

definition details_add_one :: "Database option \<Rightarrow> Model \<Rightarrow> update_result" where
  "details_add_one db m =
     (case postDetails m of
        None \<Rightarrow> Inr (db, m, CmdNone)
      | Some pd \<Rightarrow>
          if length (pd_YouTubeLinks pd) > 0 then
            (case index_at (pd_YouTubeLinks pd) (linkCursor m) of
               Inl p \<Rightarrow> Inl p
             | Inr link \<Rightarrow>
                 if link \<in> set (clipboardLinks m)
                 then Inr (db, m\<lparr> statusMessage := LinkAlreadyInClipboard \<rparr>, CmdNone)
                 else Inr (db, m\<lparr> clipboardLinks := clipboardLinks m @ [link],
                                    statusMessage := AddedLink \<rparr>, CmdNone))
          else Inr (db, m, CmdNone))"

text \<open>The loop of the key \<^verbatim>\<open>A\<close>: the clipboard and the count of added links.\<close>

definition add_link :: "string list \<times> int \<Rightarrow> string \<Rightarrow> string list \<times> int" where
  "add_link acc link =
     (case acc of (clip, added) \<Rightarrow>
        if link \<in> set clip then (clip, added) else (clip @ [link], added + 1))"

definition details_add_all :: "Database option \<Rightarrow> Model \<Rightarrow> update_result" where
  "details_add_all db m =
     (case postDetails m of
        None \<Rightarrow> Inr (db, m, CmdNone)
      | Some pd \<Rightarrow>
          if length (pd_YouTubeLinks pd) > 0 then
            (case foldl add_link (clipboardLinks m, 0) (pd_YouTubeLinks pd) of
               (clip, added) \<Rightarrow>
                 Inr (db, m\<lparr> clipboardLinks := clip,
                             statusMessage := (if added > 0 then AddedLinks added
                                               else AllLinksAlreadyInClipboard) \<rparr>, CmdNone))
          else Inr (db, m, CmdNone))"

definition handleDetailsKeys :: "Database option \<Rightarrow> Model \<Rightarrow> string \<Rightarrow> update_result" where
  "handleDetailsKeys db m key =
     (if key = ''esc'' \<or> key = ''backspace'' then
        Inr (db, m\<lparr> state := stateList, postDetails := None, cachedDetails := None, linkCursor := 0 \<rparr>,
             CmdNone)
      else if key = ''R'' then details_force_refresh db m
      else if key = ''up'' \<or> key = ''k'' then
        (case postDetails m of
           None \<Rightarrow> Inr (db, m, CmdNone)
         | Some pd \<Rightarrow>
             Inr (db, (if length (pd_YouTubeLinks pd) > 0 \<and> linkCursor m > 0
                       then m\<lparr> linkCursor := linkCursor m - 1 \<rparr> else m), CmdNone))
      else if key = ''down'' \<or> key = ''j'' then
        (case postDetails m of
           None \<Rightarrow> Inr (db, m, CmdNone)
         | Some pd \<Rightarrow>
             Inr (db, (if length (pd_YouTubeLinks pd) > 0
                          \<and> linkCursor m < int (length (pd_YouTubeLinks pd)) - 1
                       then m\<lparr> linkCursor := linkCursor m + 1 \<rparr> else m), CmdNone))
      else if key = ''a'' \<or> key = ''enter'' then details_add_one db m
      else if key = ''A'' then details_add_all db m
      else Inr (db, m, CmdNone))"

definition handleErrorKeys :: "Database option \<Rightarrow> Model \<Rightarrow> string \<Rightarrow> update_result" where
  "handleErrorKeys db m key =
     (if key = ''r'' then
        Inr (db, m\<lparr> state := stateLoading, loadingMsg := Retrying \<rparr>, CmdFetchPosts (page_cursor m))
      else if key = ''esc'' then
        Inr (db, m\<lparr> state := stateInput, inputValue := [] \<rparr>, CmdBlink)
      else Inr (db, m, CmdNone))"

text \<open>
  The keys \<open>Update\<close> handles before those of the current view, with the bodies of the
  cases that change the clipboard first; \<open>None\<close> when the key falls through to the keys
  of the view.
\<close>

definition clipboard_copy :: "libs \<Rightarrow> Model \<Rightarrow> Model" where
  "clipboard_copy L m =
     m\<lparr> statusMessage :=
          (if length (clipboardLinks m) > 0
           then (if clipboard_WriteAll L
                      (concat (map (\<lambda>l. l @ [CHR 0x0A]) (butlast (clipboardLinks m)))
                       @ last (clipboardLinks m))
                 then CopiedLinks (length (clipboardLinks m)) else CopyFailed)
           else ClipboardIsEmpty) \<rparr>"

definition clipboard_remove :: "Model \<Rightarrow> panic + Model" where
  "clipboard_remove m =
     (if 0 \<le> clipboardCursor m \<and> clipboardCursor m + 1 \<le> int (length (clipboardLinks m)) then
        (let clip = take (nat (clipboardCursor m)) (clipboardLinks m)
                    @ drop (nat (clipboardCursor m + 1)) (clipboardLinks m);
             c = (if clipboardCursor m \<ge> int (length clip) \<and> clipboardCursor m > 0
                  then clipboardCursor m - 1 else clipboardCursor m)
         in Inr (m\<lparr> clipboardLinks := clip, clipboardCursor := c, statusMessage := RemovedLink \<rparr>))
      else Inl SliceBoundsOutOfRange)"

definition globalKeys :: "libs \<Rightarrow> Database option \<Rightarrow> Model \<Rightarrow> string \<Rightarrow> update_result option" where
  "globalKeys L db m key =
     (let browsing = (state m = stateList \<or> state m = stateDetails) in
      if key = ''ctrl+c'' \<or> key = ''esc'' then
        (if state m = stateInput then Some (Inr (db, m, CmdQuit)) else None)
      else if key = ''q'' then
        (if state m \<noteq> stateInput then Some (Inr (db, m, CmdQuit)) else None)
      else if key = ''c'' \<or> key = ''y'' then
        (if browsing then Some (Inr (db, clipboard_copy L m, CmdNone)) else None)
      else if key = ''x'' then
        (if browsing \<and> length (clipboardLinks m) > 0
         then Some (case clipboard_remove m of Inl p \<Rightarrow> Inl p | Inr m' \<Rightarrow> Inr (db, m', CmdNone))
         else None)
      else if key = ''X'' then
        (if browsing then
           Some (Inr (db, m\<lparr> clipboardLinks := [], clipboardCursor := 0,
                              statusMessage := ClearedClipboard \<rparr>, CmdNone))
         else None)
      else if key = ''['' then
        (if browsing \<and> clipboardCursor m > 0
         then Some (Inr (db, m\<lparr> clipboardCursor := clipboardCursor m - 1 \<rparr>, CmdNone)) else None)
      else if key = '']'' then
        (if browsing \<and> clipboardCursor m < int (length (clipboardLinks m)) - 1
         then Some (Inr (db, m\<lparr> clipboardCursor := clipboardCursor m + 1 \<rparr>, CmdNone)) else None)
      else None)"

text \<open>The first post with the given id is marked as cached.\<close>

fun mark_cached :: "Post list \<Rightarrow> string \<Rightarrow> Post list" where
  "mark_cached [] pid = []"
| "mark_cached (p # ps) pid =
     (if ID p = pid then p\<lparr> DetailsCached := True \<rparr> # ps else p # mark_cached ps pid)"

text \<open>The cases of \<open>Update\<close> for the results of the two fetches, then \<open>Update\<close> itself.\<close>

definition posts_fetched ::
  "Database option \<Rightarrow> Model \<Rightarrow> Post list \<Rightarrow> string \<Rightarrow> bool \<Rightarrow> int \<Rightarrow> api_error option \<Rightarrow> update_result" where
  "posts_fetched db m ps next morePages totalCount e =
     (case e of
        Some er \<Rightarrow> Inr (db, m\<lparr> state := stateError, err := Some er \<rparr>, CmdNone)
      | None \<Rightarrow>
          Inr (db,
               m\<lparr> posts := (case db of
                              None \<Rightarrow> ps
                            | Some d \<Rightarrow>
                                map (\<lambda>p. p\<lparr> DetailsCached := IsPostDetailsCached d (ID p) \<rparr>) ps),
                  nextCursor := next, hasMorePages := morePages, totalPosts := totalCount,
                  state := stateList, cursor := 0 \<rparr>,
               CmdNone))"

definition post_details_fetched ::
  "libs \<Rightarrow> Database option \<Rightarrow> Model \<Rightarrow> PostDetails option \<Rightarrow> api_error option \<Rightarrow> update_result" where
  "post_details_fetched L db m details e =
     (case e of
        Some er \<Rightarrow> Inr (db, m\<lparr> state := stateError, err := Some er \<rparr>, CmdNone)
      | None \<Rightarrow>
          (let m1 = m\<lparr> postDetails := details, linkCursor := 0 \<rparr> in
           case (db, details) of
             (Some d, Some det) \<Rightarrow>
               Inr (Some (SavePostDetails d (pd_ID det) (pd_Description det)
                            (json_Marshal L (pd_YouTubeLinks det))),
                    m1\<lparr> posts := mark_cached (posts m1) (pd_ID det), state := stateDetails \<rparr>,
                    CmdNone)
           | _ \<Rightarrow> Inr (db, m1\<lparr> state := stateDetails \<rparr>, CmdNone)))"

definition state_keys :: "libs \<Rightarrow> Database option \<Rightarrow> Model \<Rightarrow> string \<Rightarrow> update_result" where
  "state_keys L db m key =
     (case state m of
        stateInput \<Rightarrow>
          if key = ''enter'' \<and> inputValue m \<noteq> []
          then Inr (db, m\<lparr> campaignID := inputValue m, currentPage := 1,
                           cursorHistory := [], state := stateLoading,
                           loadingMsg := FetchingPosts \<rparr>,
                    CmdFetchPosts [])
          else Inr (db, m\<lparr> inputValue := input_Update L (inputValue m) key \<rparr>, CmdWidget)
      | stateList \<Rightarrow> handleListKeys L db m key
      | stateDetails \<Rightarrow> handleDetailsKeys db m key
      | stateError \<Rightarrow> handleErrorKeys db m key
      | stateLoading \<Rightarrow> Inr (db, m, CmdNone))"

definition Update :: "libs \<Rightarrow> Database option \<Rightarrow> Model \<Rightarrow> Msg \<Rightarrow> update_result" where
  "Update L db m0 msg =
     (case msg of
        KeyMsg key \<Rightarrow>
          (let m = m0\<lparr> statusMessage := NoStatus \<rparr> in
           case globalKeys L db m key of
             Some r \<Rightarrow> r
           | None \<Rightarrow> state_keys L db m key)
      | WindowSizeMsg w h \<Rightarrow> Inr (db, m0\<lparr> width := w, height := h \<rparr>, CmdNone)
      | PostsFetchedMsg ps next morePages totalCount e \<Rightarrow>
          posts_fetched db m0 ps next morePages totalCount e
      | PostDetailsFetchedMsg details e \<Rightarrow> post_details_fetched L db m0 details e
      | SpinnerTickMsg \<Rightarrow> Inr (db, m0, CmdWidget)
      | OtherMsg \<Rightarrow> Inr (db, m0, (if state m0 = stateDetails then CmdWidget else CmdNone)))"

text \<open>The message loop: the messages are applied in turn until one of them panics.\<close>

fun run_msgs :: "libs \<Rightarrow> Database option \<Rightarrow> Model \<Rightarrow> Msg list \<Rightarrow> panic + (Database option \<times> Model)" where
  "run_msgs L db m [] = Inr (db, m)"
| "run_msgs L db m (msg # msgs) =
     (case Update L db m msg of
        Inl p \<Rightarrow> Inl p
      | Inr (db', m', cmd) \<Rightarrow> run_msgs L db' m' msgs)"

text \<open>
  The clipboard is well formed: no link occurs twice, and its cursor is on one of its
  entries, or 0 when it has none.
\<close>

definition clip_inv :: "Model \<Rightarrow> bool" where
  "clip_inv m \<longleftrightarrow>
     distinct (clipboardLinks m) \<and> 0 \<le> clipboardCursor m \<and>
     (clipboardCursor m < int (length (clipboardLinks m)) \<or> clipboardCursor m = 0)"

text \<open>
  The cursors of the model are in range: the list cursor and the clipboard cursor are on
  an entry of their lists, or 0; so is the link cursor while details are on display; and
  the page number is at least 1.
\<close>

definition shown_links :: "Model \<Rightarrow> string list" where
  "shown_links m = (case postDetails m of None \<Rightarrow> [] | Some pd \<Rightarrow> pd_YouTubeLinks pd)"

definition ui_inv :: "Model \<Rightarrow> bool" where
  "ui_inv m \<longleftrightarrow>
     clip_inv m \<and>
     0 \<le> cursor m \<and> (cursor m < int (length (posts m)) \<or> cursor m = 0) \<and>
     0 \<le> linkCursor m \<and> (linkCursor m < int (length (shown_links m)) \<or> linkCursor m = 0) \<and>
     1 \<le> currentPage m"

text \<open>A result of \<open>Update\<close> that is no panic and whose model satisfies \<open>P\<close>.\<close>

definition returns :: "(Model \<Rightarrow> bool) \<Rightarrow> update_result \<Rightarrow> bool" where
  "returns P r = (case r of Inl p \<Rightarrow> False | Inr (db, m, c) \<Rightarrow> P m)"

text \<open>A result of \<open>Update\<close> whose model, unless it is a panic, satisfies \<open>P\<close>.\<close>

definition if_returns :: "(Model \<Rightarrow> bool) \<Rightarrow> update_result \<Rightarrow> bool" where
  "if_returns P r = (case r of Inl p \<Rightarrow> True | Inr (db, m, c) \<Rightarrow> P m)"

definition no_duplicates :: "Model \<Rightarrow> bool" where
  "no_duplicates m \<longleftrightarrow> distinct (clipboardLinks m)"

text \<open>What is read off a result in the examples: the clipboard, and the pagination with the command.\<close>

definition final_clipboard :: "panic + (Database option \<times> Model) \<Rightarrow> (string list \<times> int) option" where
  "final_clipboard r =
     (case r of Inl p \<Rightarrow> None | Inr (db, m) \<Rightarrow> Some (clipboardLinks m, clipboardCursor m))"

definition pagination_after :: "update_result \<Rightarrow> (Cmd \<times> int \<times> string list) option" where
  "pagination_after r =
     (case r of Inl p \<Rightarrow> None | Inr (db, m, c) \<Rightarrow> Some (c, currentPage m, cursorHistory m))"

subsection \<open>Example sessions\<close>

text \<open>A post as the list shows it, the details of a post with a repeated link, and models on the list and on the details.\<close>

definition example_list_post :: Post where
  "example_list_post = (FromPostData (post_data ''p1'' (utc 63852796800)))\<lparr> DetailsCached := True \<rparr>"

definition example_details :: PostDetails where
  "example_details =
     \<lparr> pd_ID = ''p1'', pd_Title = ''A post'', pd_Content = [], pd_Description = ''Two videos'',
       pd_PostType = ''video_embed'', pd_PublishedAt = utc 63852796800,
       pd_YouTubeLinks = [''https://www.youtube.com/watch?v=dQw4w9WgXcQ'',
                          ''https://www.youtube.com/watch?v=AAAAAAAAAAA'',
                          ''https://www.youtube.com/watch?v=dQw4w9WgXcQ''] \<rparr>"

definition example_session :: "Msg list" where
  "example_session =
     [KeyMsg ''7'', KeyMsg ''enter'',
      PostsFetchedMsg [example_list_post] [] False 0 None,
      KeyMsg ''enter'',
      PostDetailsFetchedMsg (Some example_details) None,
      KeyMsg ''A'', KeyMsg ''a'', KeyMsg '']'', KeyMsg ''x'']"

definition example_list_model :: Model where
  "example_list_model =
     NewModel\<lparr> state := stateList, posts := [example_list_post], campaignID := ''7'',
               nextCursor := ''c2'', hasMorePages := True \<rparr>"

definition example_details_model :: Model where
  "example_details_model =
     NewModel\<lparr> state := stateDetails, posts := [example_list_post], campaignID := ''7'',
               postDetails := Some example_details \<rparr>"

section \<open>Properties of the link extraction\<close>

lemma FindAll_matches:
  "\<forall>s caps rest. rx_match pat s = Some (caps, rest) \<longrightarrow> P caps \<Longrightarrow>
   m \<in> set (FindAllStringSubmatch pat s) \<Longrightarrow> \<exists>w caps. m = w # caps \<and> P caps"
proof (induction pat s rule: FindAllStringSubmatch.induct)
  case (1 pat s)
  note P = "1.prems"(1)
  note mem = "1.prems"(2)[unfolded FindAllStringSubmatch.simps[of pat s]]
  show ?case
  proof (cases "s = []")
    case True
    with mem show ?thesis by simp
  next
    case False
    show ?thesis
    proof (cases "rx_match pat s")
      case None
      with False mem "1.IH"(1)[OF False _ P] show ?thesis by simp
    next
      case (Some a)
      obtain caps rest where a: "a = (caps, rest)" by (cases a)
      show ?thesis
      proof (cases "length rest < length s")
        case True
        with False Some a mem have "m = take (length s - length rest) s # caps \<or> m \<in> set (FindAllStringSubmatch pat rest)"
          by simp
        then show ?thesis
        proof
          assume "m = take (length s - length rest) s # caps"
          with P Some[unfolded a] show ?thesis by blast
        next
          assume "m \<in> set (FindAllStringSubmatch pat rest)"
          with "1.IH"(2)[OF False Some[unfolded a] refl True P] show ?thesis by blast
        qed
      next
        case no: False
        with False Some a mem have "m \<in> set (FindAllStringSubmatch pat (tl s))" by simp
        with "1.IH"(3)[OF False Some[unfolded a] refl no P] show ?thesis by blast
      qed
    qed
  qed
qed

lemma rx_match_caps:
  "rx_match items s = Some (caps, rest) \<Longrightarrow>
   list_all2 (\<lambda>g c. length c = fst g \<and> list_all (snd g) c) (cap_groups items) caps"
proof (induction items s arbitrary: caps rest rule: rx_match.induct)
  case (1 s)
  then show ?case by simp
next
  case (2 l r s)
  then show ?case by (simp split: if_splits)
next
  case (3 l r s)
  then show ?case by (simp split: option.splits)
next
  case (4 l r s)
  then show ?case by (auto split: if_splits option.splits)
next
  case (5 p r)
  then show ?case by simp
next
  case (6 p r c cs)
  then show ?case by (simp split: if_splits)
next
  case (7 p r)
  then show ?case by simp
next
  case (8 p r c cs)
  then show ?case by (auto split: if_splits option.splits)
next
  case (9 r)
  then show ?case by simp
next
  case (10 r c cs)
  then show ?case by (auto split: option.splits)
next
  case (11 n p r s)
  then show ?case by (auto split: if_splits option.splits)
qed

lemma youtube_capture:
  assumes "pat \<in> set youtubePatterns" "rx_match pat s = Some (caps, rest)"
  shows "\<exists>vid. caps = [vid] \<and> length vid = 11 \<and> list_all id_char vid"
proof -
  from assms(1) have "cap_groups pat = [(11, id_char)]"
    by (auto simp: youtubePatterns_def)
  with rx_match_caps[OF assms(2)] show ?thesis
    by (auto simp: list_all2_Cons1)
qed

lemma first_seen_snoc:
  "first_seen (xs @ [x]) = (if x \<in> set xs then first_seen xs else first_seen xs @ [x])"
  by (simp add: first_seen_def)

lemma set_first_seen: "set (first_seen xs) = set xs"
  by (simp add: first_seen_def)

lemma distinct_first_seen: "distinct (first_seen xs)"
  by (simp add: first_seen_def)

lemma first_seen_distinct_id: "distinct xs \<Longrightarrow> first_seen xs = xs"
  by (simp add: first_seen_def distinct_remdups_id)

lemma remdups_append_remdups: "remdups (a @ remdups b) = remdups (a @ b)"
  by (induction a) auto

lemma first_seen_absorb: "first_seen (first_seen xs @ ys) = first_seen (xs @ ys)"
  by (simp add: first_seen_def remdups_append_remdups)

lemma record_match_seen_of:
  "length m = 2 \<Longrightarrow> record_match (seen_of (first_seen ids)) m = seen_of (first_seen (ids @ [m ! 1]))"
  by (auto simp: record_match_def seen_of_def first_seen_snoc set_first_seen fun_eq_iff Let_def)

lemma inner_fold_seen_of:
  "\<forall>m \<in> set ms. length m = 2 \<Longrightarrow>
   foldl record_match (seen_of (first_seen ids)) ms = seen_of (first_seen (ids @ map (\<lambda>m. m ! 1) ms))"
proof (induction ms arbitrary: ids)
  case Nil
  then show ?case by simp
next
  case (Cons m ms)
  then show ?case by (simp add: record_match_seen_of)
qed

lemma youtube_match_length:
  "pat \<in> set youtubePatterns \<Longrightarrow> m \<in> set (FindAllStringSubmatch pat s) \<Longrightarrow>
   length m = 2 \<and> length (m ! 1) = 11 \<and> list_all id_char (m ! 1)"
  using FindAll_matches[where P = "\<lambda>caps. \<exists>vid. caps = [vid] \<and> length vid = 11 \<and> list_all id_char vid" and pat = pat and m = m and s = s]
    youtube_capture[of pat]
  by fastforce

lemma outer_fold_seen_of:
  "set ps \<subseteq> set youtubePatterns \<Longrightarrow>
   foldl (\<lambda>st pattern. foldl record_match st (FindAllStringSubmatch pattern content)) (seen_of (first_seen ids)) ps
   = seen_of (first_seen (ids @ concat (map (\<lambda>pattern. map (\<lambda>m. m ! 1) (FindAllStringSubmatch pattern content)) ps)))"
proof (induction ps arbitrary: ids)
  case Nil
  then show ?case by simp
next
  case (Cons p ps)
  have "\<forall>m \<in> set (FindAllStringSubmatch p content). length m = 2"
    using Cons.prems youtube_match_length by auto
  then show ?case
    using Cons by (simp add: inner_fold_seen_of)
qed

lemma ExtractYouTubeLinks_eq:
  "ExtractYouTubeLinks content = map (\<lambda>v. watch_prefix @ v) (first_seen (matched_ids content))"
proof -
  have init: "seen_of (first_seen ([]::string list)) = (\<lambda>_. False, [])"
    by (simp add: seen_of_def first_seen_def)
  have "foldl (\<lambda>st pattern. foldl record_match st (FindAllStringSubmatch pattern content))
          (seen_of (first_seen [])) youtubePatterns
        = seen_of (first_seen (matched_ids content))"
    using outer_fold_seen_of[of youtubePatterns content "[]"] by (simp add: matched_ids_def)
  then show ?thesis
    unfolding ExtractYouTubeLinks_def init by (simp add: seen_of_def)
qed

lemma matched_ids_wf: "v \<in> set (matched_ids content) \<Longrightarrow> length v = 11 \<and> list_all id_char v"
  using youtube_match_length by (auto simp: matched_ids_def)

lemma id_char_iff:
  "id_char c \<longleftrightarrow> c \<in> set ''abcdefghijklmnopqrstuvwxyzABCDEFGHIJKLMNOPQRSTUVWXYZ0123456789_-''"
  by (auto simp: id_char_def lower_letters_def upper_letters_def)

text \<open>
  Claim C1. Every link returned by \<open>ExtractYouTubeLinks\<close> is the canonical watch prefix
  followed by an id of exactly 11 characters of \<open>[A-Za-z0-9_-]\<close>; the ids of one call are
  pairwise distinct; and the links are the first occurrences, in order, of the ids matched
  by the five expressions taken in their fixed order (watch, embed, youtu.be, v, shorts).
\<close>

theorem C1_extract_canonical_distinct_ordered:
  "(\<forall>link \<in> set (ExtractYouTubeLinks content).
      \<exists>vid. link = ''https://www.youtube.com/watch?v='' @ vid \<and> length vid = 11
            \<and> (\<forall>c \<in> set vid. c \<in> set ''abcdefghijklmnopqrstuvwxyzABCDEFGHIJKLMNOPQRSTUVWXYZ0123456789_-''))
   \<and> distinct (map (drop 32) (ExtractYouTubeLinks content))
   \<and> map (drop 32) (ExtractYouTubeLinks content) = first_seen (matched_ids content)
   \<and> ExtractYouTubeLinks content = map (\<lambda>vid. ''https://www.youtube.com/watch?v='' @ vid) (first_seen (matched_ids content))"
proof -
  let ?ids = "first_seen (matched_ids content)"
  have eq: "ExtractYouTubeLinks content = map (\<lambda>vid. watch_prefix @ vid) ?ids"
    by (rule ExtractYouTubeLinks_eq)
  have drop: "map (drop 32) (ExtractYouTubeLinks content) = ?ids"
    unfolding eq by (simp add: watch_prefix_def comp_def)
  have wf: "\<forall>v \<in> set ?ids. length v = 11 \<and> (\<forall>c \<in> set v. id_char c)"
    using matched_ids_wf by (auto simp: set_first_seen list_all_iff)
  have "\<forall>link \<in> set (ExtractYouTubeLinks content).
      \<exists>vid. link = watch_prefix @ vid \<and> length vid = 11 \<and> (\<forall>c \<in> set vid. id_char c)"
    unfolding eq using wf by auto
  then show ?thesis
    unfolding drop using eq distinct_first_seen[of "matched_ids content"]
    by (simp add: watch_prefix_def id_char_iff)
qed

theorem C1_extract_witness:
  "ExtractYouTubeLinks
     ''x http://youtube.com/shorts/AAAAAAAAAAA- https://youtu.be/dQw4w9WgXcQ and https://www.youtube.com/watch?v=dQw4w9WgXc_&feature=share https://www.youtube.com/embed/dQw4w9WgXcQ''
   = [''https://www.youtube.com/watch?v=dQw4w9WgXc_'',
      ''https://www.youtube.com/watch?v=dQw4w9WgXcQ'',
      ''https://www.youtube.com/watch?v=AAAAAAAAAAA'']
   \<and> first_seen (matched_ids
     ''x http://youtube.com/shorts/AAAAAAAAAAA- https://youtu.be/dQw4w9WgXcQ and https://www.youtube.com/watch?v=dQw4w9WgXc_&feature=share https://www.youtube.com/embed/dQw4w9WgXcQ'')
   = [''dQw4w9WgXc_'', ''dQw4w9WgXcQ'', ''AAAAAAAAAAA'']
   \<and> ExtractYouTubeLinks
     ''Check https://youtu.be/dQw4w9WgXcQ and https://www.youtube.com/watch?v=dQw4w9WgXcQ&feature=share''
   = [''https://www.youtube.com/watch?v=dQw4w9WgXcQ'']"
proof -
  let ?c = "''x http://youtube.com/shorts/AAAAAAAAAAA- https://youtu.be/dQw4w9WgXcQ and https://www.youtube.com/watch?v=dQw4w9WgXc_&feature=share https://www.youtube.com/embed/dQw4w9WgXcQ''"
  have e: "ExtractYouTubeLinks ?c
   = [''https://www.youtube.com/watch?v=dQw4w9WgXc_'',
      ''https://www.youtube.com/watch?v=dQw4w9WgXcQ'',
      ''https://www.youtube.com/watch?v=AAAAAAAAAAA'']"
    by code_simp
  from C1_extract_canonical_distinct_ordered[of ?c]
  have "map (drop 32) (ExtractYouTubeLinks ?c) = first_seen (matched_ids ?c)"
    by blast
  moreover have "ExtractYouTubeLinks
     ''Check https://youtu.be/dQw4w9WgXcQ and https://www.youtube.com/watch?v=dQw4w9WgXcQ&feature=share''
   = [''https://www.youtube.com/watch?v=dQw4w9WgXcQ'']"
    by code_simp
  ultimately show ?thesis unfolding e by simp
qed

section \<open>Properties of the markup stripping\<close>

lemma rx_match_Many_only: "rx_match [Many p] s = Some ([], dropWhile p s)"
  by (induction s) auto

lemma rx_match_whitespaceRe:
  "rx_match whitespaceRe (c # cs) = (if ws_char c then Some ([], dropWhile ws_char cs) else None)"
  by (simp add: whitespaceRe_def rx_match_Many_only)

lemma Replace_whitespace_Cons:
  "ReplaceAllString whitespaceRe (c # cs) '' '' =
     (if ws_char c then CHR '' '' # ReplaceAllString whitespaceRe (dropWhile ws_char cs) '' ''
      else c # ReplaceAllString whitespaceRe cs '' '')"
  by (subst ReplaceAllString.simps) (simp add: rx_match_whitespaceRe less_Suc_eq_le length_dropWhile_le)

lemma Replace_Nil: "ReplaceAllString pat [] repl = []"
  by (subst ReplaceAllString.simps) simp

lemma ws_space: "ws_char CHR '' ''"
  by (simp add: ws_char_def)

lemma collapse_single_spaced:
  "single_spaced (ReplaceAllString whitespaceRe s '' '') \<and>
   (s \<noteq> [] \<and> \<not> ws_char (hd s) \<longrightarrow> ReplaceAllString whitespaceRe s '' '' \<noteq> [] \<and> hd (ReplaceAllString whitespaceRe s '' '') = hd s)"
proof (induction s rule: length_induct)
  case (1 s)
  show ?case
  proof (cases s)
    case Nil
    then show ?thesis by (simp add: Replace_Nil single_spaced_def)
  next
    case (Cons c cs)
    show ?thesis
    proof (cases "ws_char c")
      case True
      let ?r = "dropWhile ws_char cs"
      have len: "length ?r < length s" using Cons by (simp add: less_Suc_eq_le length_dropWhile_le)
      from 1 len have ih: "single_spaced (ReplaceAllString whitespaceRe ?r '' '')"
        and ih2: "?r \<noteq> [] \<and> \<not> ws_char (hd ?r) \<longrightarrow> ReplaceAllString whitespaceRe ?r '' '' \<noteq> [] \<and> hd (ReplaceAllString whitespaceRe ?r '' '') = hd ?r"
        by blast+
      have hdr: "?r \<noteq> [] \<Longrightarrow> \<not> ws_char (hd ?r)" by (rule hd_dropWhile)
      have nonsp: "ReplaceAllString whitespaceRe ?r '' '' \<noteq> [] \<Longrightarrow> hd (ReplaceAllString whitespaceRe ?r '' '') \<noteq> CHR '' ''"
      proof -
        assume ne: "ReplaceAllString whitespaceRe ?r '' '' \<noteq> []"
        then have "?r \<noteq> []" using Replace_Nil by metis
        with hdr ih2 ws_space show ?thesis by metis
      qed
      show ?thesis using Cons True ih nonsp
        by (auto simp: Replace_whitespace_Cons single_spaced_def successively_Cons)
    next
      case False
      from 1 Cons have ih: "single_spaced (ReplaceAllString whitespaceRe cs '' '')" by simp
      from False ws_space have "c \<noteq> CHR '' ''" by auto
      then show ?thesis using Cons False ih
        by (auto simp: Replace_whitespace_Cons single_spaced_def successively_Cons)
    qed
  qed
qed

lemma trim_with_drop: "\<exists>n. trim_with seqs s = drop n s"
proof (induction seqs s rule: trim_with.induct)
  case (1 seqs s)
  show ?case
  proof (cases "filter (\<lambda>w. w \<noteq> [] \<and> prefix w s) seqs")
    case Nil
    then have "trim_with seqs s = drop 0 s" by (subst trim_with.simps) simp
    then show ?thesis by blast
  next
    case (Cons w ws)
    from "1.IH"[OF Cons] obtain n where "trim_with seqs (drop (length w) s) = drop n (drop (length w) s)" by blast
    with Cons have "trim_with seqs s = drop (length w + n) s"
      by (subst trim_with.simps) (simp add: add.commute)
    then show ?thesis by blast
  qed
qed

lemma trim_with_done:
  "w \<in> set seqs \<Longrightarrow> w \<noteq> [] \<Longrightarrow> \<not> prefix w (trim_with seqs s)"
proof (induction seqs s rule: trim_with.induct)
  case (1 seqs s)
  show ?case
  proof (cases "filter (\<lambda>w. w \<noteq> [] \<and> prefix w s) seqs")
    case Nil
    then have eq: "trim_with seqs s = s" by (subst trim_with.simps) simp
    from Nil "1.prems" have "\<not> prefix w s" by (auto simp: filter_empty_conv)
    with eq show ?thesis by simp
  next
    case (Cons v vs)
    then have "trim_with seqs s = trim_with seqs (drop (length v) s)"
      by (subst trim_with.simps) simp
    with "1.IH"[OF Cons "1.prems"] show ?thesis by simp
  qed
qed

lemma successively_drop: "successively P xs \<Longrightarrow> successively P (drop n xs)"
  using successively_append_iff[of P "take n xs" "drop n xs"] by simp

lemma single_spaced_drop: "single_spaced xs \<Longrightarrow> single_spaced (drop n xs)"
  unfolding single_spaced_def using successively_drop set_drop_subset by fastforce

lemma single_spaced_rev: "single_spaced (rev xs) = single_spaced xs"
proof -
  have "successively (\<lambda>x y. \<not> (y = CHR '' '' \<and> x = CHR '' '')) xs
        \<longleftrightarrow> successively (\<lambda>a b. \<not> (a = CHR '' '' \<and> b = CHR '' '')) xs"
    by (rule successively_cong) auto
  then show ?thesis
    unfolding single_spaced_def successively_rev set_rev by blast
qed

lemma single_spaced_TrimSpace: "single_spaced s \<Longrightarrow> single_spaced (TrimSpace s)"
proof -
  assume a: "single_spaced s"
  obtain n where n: "trim_with space_seqs s = drop n s" using trim_with_drop by blast
  obtain m where m: "trim_with (map rev space_seqs) (rev (drop n s)) = drop m (rev (drop n s))"
    using trim_with_drop by blast
  show ?thesis unfolding TrimSpace_def n m
    using a by (simp add: single_spaced_rev single_spaced_drop)
qed

lemma space_seqs_nonempty: "w \<in> set space_seqs \<Longrightarrow> w \<noteq> []"
  by (auto simp: space_seqs_def)

lemma TrimSpace_trimmed:
  assumes "w \<in> set space_seqs"
  shows "\<not> prefix w (TrimSpace s) \<and> \<not> suffix w (TrimSpace s)"
proof -
  let ?t = "trim_with space_seqs s"
  let ?u = "trim_with (map rev space_seqs) (rev ?t)"
  have w: "w \<noteq> []" using assms by (rule space_seqs_nonempty)
  have np: "\<not> prefix w ?t" using trim_with_done[OF assms w] .
  obtain m where m: "?u = drop m (rev ?t)" using trim_with_drop by blast
  have "TrimSpace s = rev (drop m (rev ?t))" unfolding TrimSpace_def m ..
  also have "\<dots> = take (length ?t - m) ?t" by (simp add: rev_drop)
  finally have pre: "prefix (TrimSpace s) ?t" by (simp add: take_is_prefix)
  have a: "\<not> prefix w (TrimSpace s)"
  proof
    assume "prefix w (TrimSpace s)"
    with pre have "prefix w ?t" by (auto simp: prefix_def)
    with np show False ..
  qed
  have "rev w \<in> set (map rev space_seqs)" using assms by simp
  then have "\<not> prefix (rev w) ?u" using w trim_with_done by simp
  then have b: "\<not> suffix w (TrimSpace s)"
    unfolding TrimSpace_def by (simp add: suffix_to_prefix)
  from a b show ?thesis ..
qed

text \<open>
  Claim C4. \<open>stripHTML\<close> is, in this order: removal of script blocks, removal of style
  blocks, removal of the remaining tags, decoding of the six entities \<^verbatim>\<open>&nbsp; &amp; &lt;
  &gt; &quot; &#39;\<close>, collapsing of whitespace runs to one space, trimming of both ends.
  Hence its result holds no whitespace of the class \<^verbatim>\<open>\s\<close> other than single spaces
  and neither starts nor ends with a space character; and
  \<^verbatim>\<open><p>Hi&nbsp;<b>there</b></p>\<close> yields \<^verbatim>\<open>Hi there\<close>.
\<close>

theorem C4_stripHTML_pipeline:
  "stripHTML html =
     TrimSpace
      (ReplaceAllString whitespaceRe
        (strings_ReplaceAll (strings_ReplaceAll (strings_ReplaceAll
          (strings_ReplaceAll (strings_ReplaceAll (strings_ReplaceAll
            (ReplaceAllString htmlTagRe
              (ReplaceAllString styleTagRe
                (ReplaceAllString scriptTagRe html []) []) [])
            ''&nbsp;'' '' '') ''&amp;'' ''&'') ''&lt;'' ''<'')
            ''&gt;'' ''>'') ''&quot;'' [CHR 0x22]) ''&#39;'' [CHR 0x27])
        '' '')
   \<and> stripHTML ''<p>Hi&nbsp;<b>there</b></p>'' = ''Hi there''
   \<and> (\<forall>c \<in> set (stripHTML html). ws_char c \<longrightarrow> c = CHR '' '')
   \<and> successively (\<lambda>a b. \<not> (a = CHR '' '' \<and> b = CHR '' '')) (stripHTML html)
   \<and> (\<forall>w \<in> set space_seqs. \<not> prefix w (stripHTML html) \<and> \<not> suffix w (stripHTML html))"
proof -
  have pipeline: "stripHTML html =
     TrimSpace
      (ReplaceAllString whitespaceRe
        (strings_ReplaceAll (strings_ReplaceAll (strings_ReplaceAll
          (strings_ReplaceAll (strings_ReplaceAll (strings_ReplaceAll
            (ReplaceAllString htmlTagRe
              (ReplaceAllString styleTagRe
                (ReplaceAllString scriptTagRe html []) []) [])
            ''&nbsp;'' '' '') ''&amp;'' ''&'') ''&lt;'' ''<'')
            ''&gt;'' ''>'') ''&quot;'' [CHR 0x22]) ''&#39;'' [CHR 0x27])
        '' '')"
    by (simp add: stripHTML_def Let_def)
  have example: "stripHTML ''<p>Hi&nbsp;<b>there</b></p>'' = ''Hi there''"
    by code_simp
  have "single_spaced (stripHTML html)"
    unfolding pipeline using collapse_single_spaced by (intro single_spaced_TrimSpace) blast
  then have spaced: "(\<forall>c \<in> set (stripHTML html). ws_char c \<longrightarrow> c = CHR '' '')
      \<and> successively (\<lambda>a b. \<not> (a = CHR '' '' \<and> b = CHR '' '')) (stripHTML html)"
    by (simp add: single_spaced_def)
  have trimmed: "\<forall>w \<in> set space_seqs. \<not> prefix w (stripHTML html) \<and> \<not> suffix w (stripHTML html)"
    unfolding pipeline using TrimSpace_trimmed by blast
  from pipeline example spaced trimmed show ?thesis by blast
qed

theorem C4_stripHTML_witness:
  \<open>stripHTML (''<SCRIPT type="x">var a = "<p>";'' @ [CHR 0x0A] @ ''</Script> A<style>p{}</style>  B''
              @ [CHR 0x09, CHR 0x0A] @ ''&lt;C&gt; &amp; &quot;D&quot; &#39;E&#39; &copy;<br/>'' @ [CHR 0xC2, CHR 0xA0])
     = ''A B <C> & "D" '' @ [CHR 0x27] @ ''E'' @ [CHR 0x27] @ '' &copy;''
   \<and> successively (\<lambda>a b. \<not> (a = CHR '' '' \<and> b = CHR '' ''))
        (stripHTML (''<SCRIPT type="x">var a = "<p>";'' @ [CHR 0x0A] @ ''</Script> A<style>p{}</style>  B''
              @ [CHR 0x09, CHR 0x0A] @ ''&lt;C&gt; &amp; &quot;D&quot; &#39;E&#39; &copy;<br/>'' @ [CHR 0xC2, CHR 0xA0]))\<close>
proof -
  let ?h = \<open>''<SCRIPT type="x">var a = "<p>";'' @ [CHR 0x0A] @ ''</Script> A<style>p{}</style>  B''
              @ [CHR 0x09, CHR 0x0A] @ ''&lt;C&gt; &amp; &quot;D&quot; &#39;E&#39; &copy;<br/>'' @ [CHR 0xC2, CHR 0xA0]\<close>
  have e: \<open>stripHTML ?h = ''A B <C> & "D" '' @ [CHR 0x27] @ ''E'' @ [CHR 0x27] @ '' &copy;''\<close>
    by code_simp
  from C4_stripHTML_pipeline[of ?h]
  have "successively (\<lambda>a b. \<not> (a = CHR '' '' \<and> b = CHR '' '')) (stripHTML ?h)"
    by blast
  with e show ?thesis by blast
qed

section \<open>Properties of the cache store\<close>



subsection \<open>Serialized links\<close>









text \<open>
  Claim C7, as the code has it. \<open>SavePost\<close> leaves every other row alone. For an id that is
  already stored it keeps description, links, the details-cached flag and also the
  campaign id of the stored row, and overwrites type, post type, title, URL, visibility
  and publish time with the values of the call (and refreshes the cache time). For a new
  id it inserts the values of the call with description and links NULL and the flag
  false; \<open>GetPost\<close> then reads the description and the links back as empty strings and
  the flag as false when the driver can scan the publish time of the call, and returns
  the error of the scan when it cannot.
\<close>

theorem C7_SavePost_frame:
  "(\<forall>k. k \<noteq> cp_ID post \<longrightarrow> SavePost now d post k = d k)
   \<and> (\<forall>r. d (cp_ID post) = Some r \<longrightarrow>
        (\<exists>r'. SavePost now d post (cp_ID post) = Some r'
           \<and> row_description r' = row_description r
           \<and> row_youtube_links r' = row_youtube_links r
           \<and> row_details_cached r' = row_details_cached r
           \<and> row_campaign_id r' = row_campaign_id r
           \<and> row_type r' = cp_Type post
           \<and> row_post_type r' = cp_PostType post
           \<and> row_title r' = cp_Title post
           \<and> row_patreon_url r' = cp_PatreonURL post
           \<and> row_current_user_can_view r' = cp_CurrentUserCanView post
           \<and> row_published_at r' = cp_PublishedAt post
           \<and> row_cached_at r' = now))
   \<and> (d (cp_ID post) = None \<longrightarrow>
        (\<exists>r'. SavePost now d post (cp_ID post) = Some r'
           \<and> row_description r' = None
           \<and> row_youtube_links r' = None
           \<and> row_details_cached r' = False
           \<and> row_campaign_id r' = cp_CampaignID post
           \<and> row_type r' = cp_Type post
           \<and> row_post_type r' = cp_PostType post
           \<and> row_title r' = cp_Title post
           \<and> row_patreon_url r' = cp_PatreonURL post
           \<and> row_current_user_can_view r' = cp_CurrentUserCanView post
           \<and> row_published_at r' = cp_PublishedAt post
           \<and> row_cached_at r' = now)
        \<and> (time_scans L (cp_PublishedAt post) \<longrightarrow>
             (\<exists>p. GetPost L (SavePost now d post) (cp_ID post) = Inr (Some p)
                \<and> cp_Description p = [] \<and> cp_YouTubeLinks p = [] \<and> cp_DetailsCached p = False
                \<and> cp_CampaignID p = cp_CampaignID post))
        \<and> (\<not> time_scans L (cp_PublishedAt post) \<longrightarrow>
             GetPost L (SavePost now d post) (cp_ID post) = Inl ScanError))"
  by (auto simp: SavePost_def GetPost_def)

theorem C7_SavePost_witness:
  "GetPost ref_libs (SavePost (utc 300) [''p1'' \<mapsto> example_row] example_post) ''p1''
     = Inr (Some \<lparr> cp_ID = ''p1'', cp_CampaignID = ''c1'', cp_Type = ''post'', cp_PostType = ''video_embed'',
              cp_Title = ''New title'', cp_PatreonURL = ''https://www.patreon.com/posts/1-new'',
              cp_CurrentUserCanView = True, cp_PublishedAt = utc 150,
              cp_Description = ''Hello'', cp_YouTubeLinks = ''null'', cp_CachedAt = utc 300,
              cp_DetailsCached = True \<rparr>)
   \<and> GetPost ref_libs (SavePost (utc 300) Map.empty example_post) ''p1''
     = Inr (Some \<lparr> cp_ID = ''p1'', cp_CampaignID = ''c2'', cp_Type = ''post'', cp_PostType = ''video_embed'',
              cp_Title = ''New title'', cp_PatreonURL = ''https://www.patreon.com/posts/1-new'',
              cp_CurrentUserCanView = True, cp_PublishedAt = utc 150,
              cp_Description = [], cp_YouTubeLinks = [], cp_CachedAt = utc 300,
              cp_DetailsCached = False \<rparr>)
   \<and> GetPost ref_libs (SavePost (utc 300) Map.empty zoned_post) ''p1'' = Inl ScanError"
  using C7_SavePost_frame[of example_post "utc 300" "[''p1'' \<mapsto> example_row]" ref_libs]
        C7_SavePost_frame[of example_post "utc 300" Map.empty ref_libs]
        C7_SavePost_frame[of zoned_post "utc 300" Map.empty ref_libs]
  by (simp add: SavePost_def GetPost_def example_row_def example_post_def zoned_post_def
        ref_libs_def ref_time_scans_def utc_def)

text \<open>
  The claim as the specification words it fails for the campaign id, which the
  specification counts among the summary fields: a second call with another campaign id
  leaves the stored one in place.
\<close>

theorem C7_campaign_id_counterexample:
  "cp_ID example_post = ''p1'' \<and> cp_CampaignID example_post = ''c2''
   \<and> map_option row_campaign_id (example_store ''p1'') = Some ''c1''
   \<and> map_option row_campaign_id (SavePost (utc 300) example_store example_post ''p1'') = Some ''c1''
   \<and> map_sum id (map_option cp_CampaignID)
        (GetPost ref_libs (SavePost (utc 300) example_store example_post) ''p1'') = Inr (Some ''c1'')"
  by (simp add: SavePost_def GetPost_def example_store_def example_row_def example_post_def
        ref_libs_def ref_time_scans_def utc_def)




section \<open>Properties of the list request\<close>

lemma FetchPosts_ok:
  assumes "list_posts R hist cid count (if cur = [] then ''null'' else cur) = Some resp"
    and "StatusCode resp = 200" and "Body resp = Json r"
  shows "FetchPosts L R hist cid count cur =
           Inr \<lparr> Posts = map FromPostData (resp_Data r),
                  NextCursor = extractCursorFromURL L (resp_Links_Next r),
                  HasMore = (resp_Links_Next r \<noteq> []), Total = 0 \<rparr>"
  using assms by (simp add: FetchPosts_def Let_def)

lemma extractCursorFromURL_cases:
  "(nextURL = [] \<longrightarrow> extractCursorFromURL L nextURL = [])
   \<and> (url_Parse L nextURL = None \<longrightarrow> extractCursorFromURL L nextURL = [])
   \<and> (\<forall>q. url_Parse L nextURL = Some q \<and> url_Query L q ''page[cursor]'' = None
          \<longrightarrow> extractCursorFromURL L nextURL = [])
   \<and> (\<forall>q. url_Parse L nextURL = Some q \<and> url_Query L q ''page[cursor]'' = Some []
          \<longrightarrow> extractCursorFromURL L nextURL = [])
   \<and> (\<forall>q v vs. nextURL \<noteq> [] \<and> url_Parse L nextURL = Some q
            \<and> url_Query L q ''page[cursor]'' = Some (v # vs)
          \<longrightarrow> extractCursorFromURL L nextURL = v)"
  by (simp add: extractCursorFromURL_def Values_Get_def)

lemma extractCursorFromURL_nonempty:
  "extractCursorFromURL L nextURL \<noteq> [] \<Longrightarrow> nextURL \<noteq> []"
  by (auto simp: extractCursorFromURL_def)

section \<open>Properties of the batch extraction workflow\<close>

lemma list_cursors_append: "list_cursors (xs @ ys) = list_cursors xs @ list_cursors ys"
  by (induction xs rule: list_cursors.induct) auto

lemma process_posts_cursors:
  "process_posts L R fd ps st allLinks = (stopped, st', links) \<Longrightarrow>
   list_cursors (calls st') = list_cursors (calls st)"
proof (induction ps arbitrary: st allLinks)
  case Nil
  then show ?case by simp
next
  case (Cons p ps)
  then show ?case
    by (auto simp: Let_def list_cursors_append split: if_splits option.splits sum.splits prod.splits)
qed

lemma process_posts_append:
  "process_posts L R fd (xs @ ys) st allLinks =
     (case process_posts L R fd xs st allLinks of
        (stopped, st', links) \<Rightarrow>
          if stopped then (True, st', links) else process_posts L R fd ys st' links)"
proof (induction xs arbitrary: st allLinks)
  case Nil
  then show ?case by simp
next
  case (Cons p ps)
  show ?case
    by (simp add: Cons.IH Let_def split: option.splits sum.splits prod.splits)
qed

lemma process_posts_no_stop:
  "\<forall>p \<in> set ps. \<not> Before (PublishedAt p) fd \<Longrightarrow> fst (process_posts L R fd ps st allLinks) = False"
proof (induction ps arbitrary: st allLinks)
  case Nil
  then show ?case by simp
next
  case (Cons p ps)
  then show ?case
    by (simp add: Let_def split: option.splits sum.splits prod.splits)
qed

lemma extract_loop_exit:
  assumes fetch: "FetchPosts L R (calls st) cid 50 cur = Inr page"
    and last: "\<not> HasMore page \<or> NextCursor page = []"
  shows "\<exists>st' links. extract_loop (Suc fuel) L R cid filterDate st cur allLinks
             = (st', Some (links, None))
           \<and> list_cursors (calls st') = list_cursors (calls st) @ [cur]"
proof -
  let ?st1 = "st\<lparr> calls := calls st @ [FetchPostsCall cid 50 cur] \<rparr>"
  obtain stopped st' links where pp: "process_posts L R filterDate (Posts page) ?st1 allLinks = (stopped, st', links)"
    by (cases "process_posts L R filterDate (Posts page) ?st1 allLinks") auto
  have loop: "extract_loop (Suc fuel) L R cid filterDate st cur allLinks = (st', Some (links, None))"
    using fetch pp last by (auto simp: Let_def)
  have "list_cursors (calls st') = list_cursors (calls ?st1)"
    using process_posts_cursors[OF pp] .
  then have "list_cursors (calls st') = list_cursors (calls st) @ [cur]"
    by (simp add: list_cursors_append)
  with loop show ?thesis by blast
qed

lemma extract_loop_cursors:
  "\<exists>rest. list_cursors (calls (fst (extract_loop fuel L R cid filterDate st cur allLinks)))
            = list_cursors (calls st) @ (if fuel = 0 then [] else cur # rest)
          \<and> [] \<notin> set rest"
proof (induction fuel arbitrary: st cur allLinks)
  case 0
  show ?case by (rule exI[of _ "[]"]) simp
next
  case (Suc fuel)
  let ?st1 = "st\<lparr> calls := calls st @ [FetchPostsCall cid 50 cur] \<rparr>"
  have c1: "list_cursors (calls ?st1) = list_cursors (calls st) @ [cur]"
    by (simp add: list_cursors_append)
  show ?case
  proof (cases "FetchPosts L R (calls st) cid 50 cur")
    case (Inl err)
    then have "extract_loop (Suc fuel) L R cid filterDate st cur allLinks = (?st1, Some (allLinks, Some err))"
      by (simp add: Let_def)
    with c1 show ?thesis by (intro exI[of _ "[]"]) simp
  next
    case (Inr page)
    obtain stopped st2 links where pp: "process_posts L R filterDate (Posts page) ?st1 allLinks = (stopped, st2, links)"
      by (cases "process_posts L R filterDate (Posts page) ?st1 allLinks") auto
    have c2: "list_cursors (calls st2) = list_cursors (calls st) @ [cur]"
      using process_posts_cursors[OF pp] c1 by simp
    show ?thesis
    proof (cases "stopped \<or> \<not> HasMore page \<or> NextCursor page = []")
      case True
      then have "extract_loop (Suc fuel) L R cid filterDate st cur allLinks = (st2, Some (links, None))"
        using Inr pp by (auto simp: Let_def)
      with c2 show ?thesis by (intro exI[of _ "[]"]) simp
    next
      case False
      then have rec: "extract_loop (Suc fuel) L R cid filterDate st cur allLinks
          = extract_loop fuel L R cid filterDate st2 (NextCursor page) links"
        using Inr pp by (auto simp: Let_def)
      from Suc.IH[of st2 "NextCursor page" links] obtain rest where
        r: "list_cursors (calls (fst (extract_loop fuel L R cid filterDate st2 (NextCursor page) links)))
            = list_cursors (calls st2) @ (if fuel = 0 then [] else NextCursor page # rest)"
        and nr: "[] \<notin> set rest" by blast
      let ?rest = "if fuel = 0 then [] else NextCursor page # rest"
      from False nr have "[] \<notin> set ?rest" by auto
      moreover have "list_cursors (calls (fst (extract_loop (Suc fuel) L R cid filterDate st cur allLinks)))
            = list_cursors (calls st) @ (cur # ?rest)"
        unfolding rec r c2 by simp
      ultimately show ?thesis by (intro exI[of _ ?rest]) simp
    qed
  qed
qed

text \<open>
  Claim C2, as the code has it. For every cutoff date other than the zero time (January 1
  of year 1, which the code takes to mean that no cutoff was given): when a fetched page
  has a post published before the cutoff after posts that are not, then
  \<open>extractLinksFromCampaign\<close> returns as soon as it meets that post: its result and the
  state it leaves are those reached after the posts before it, whatever follows on the
  page, and the page just fetched is the last list request of the campaign.
\<close>

theorem C2_stop_at_first_post_before_cutoff:
  assumes fetch: "FetchPosts L R (calls st) cid 50 cur = Inr page"
    and split: "Posts page = newer @ old # later"
    and cutoff: "\<not> IsZero filterDate"
    and newer: "\<forall>p \<in> set newer. \<not> Before (PublishedAt p) filterDate"
    and old: "Before (PublishedAt old) filterDate"
  shows "\<exists>st' links.
           process_posts L R filterDate newer
             (st\<lparr> calls := calls st @ [FetchPostsCall cid 50 cur] \<rparr>) allLinks
             = (False, st', links)
           \<and> extract_loop (Suc fuel) L R cid filterDate st cur allLinks
             = (st', Some (links, None))
           \<and> list_cursors (calls st') = list_cursors (calls st) @ [cur]"
proof -
  let ?st1 = "st\<lparr> calls := calls st @ [FetchPostsCall cid 50 cur] \<rparr>"
  obtain stopped st' links where pp: "process_posts L R filterDate newer ?st1 allLinks = (stopped, st', links)"
    by (cases "process_posts L R filterDate newer ?st1 allLinks") auto
  from process_posts_no_stop[OF newer, of L R ?st1 allLinks] pp have ns: "stopped = False" by simp
  have whole: "process_posts L R filterDate (Posts page) ?st1 allLinks = (True, st', links)"
    unfolding split process_posts_append pp using ns cutoff old by simp
  have loop: "extract_loop (Suc fuel) L R cid filterDate st cur allLinks = (st', Some (links, None))"
    using fetch whole by (simp add: Let_def)
  have "list_cursors (calls st') = list_cursors (calls ?st1)"
    using process_posts_cursors[OF pp] .
  then have log: "list_cursors (calls st') = list_cursors (calls st) @ [cur]"
    by (simp add: list_cursors_append)
  from pp ns loop log show ?thesis by blast
qed

theorem C2_scenario_witness:
  "\<not> IsZero cutoff_2024_01_01
   \<and> \<not> Before (PublishedAt (FromPostData (post_data ''p1'' (utc 63852796800)))) cutoff_2024_01_01
   \<and> Before (PublishedAt (FromPostData (post_data ''p2'' (utc 63836985600)))) cutoff_2024_01_01
   \<and> calls (fst (extractLinksFromCampaign 5 ref_libs scenario_remote Map.empty ''camp1'' cutoff_2024_01_01))
        = [FetchPostsCall ''camp1'' 50 [], FetchPostDetailsCall ''p1'']
   \<and> snd (extractLinksFromCampaign 5 ref_libs scenario_remote Map.empty ''camp1'' cutoff_2024_01_01)
        = Some ([''https://www.youtube.com/watch?v=dQw4w9WgXcQ''], None)
   \<and> (\<exists>st' links.
         extract_loop (Suc 4) ref_libs scenario_remote ''camp1'' cutoff_2024_01_01
             \<lparr> store = Map.empty, calls = [] \<rparr> [] []
           = (st', Some (links, None))
         \<and> list_cursors (calls st') = [[]])"
proof -
  let ?p1 = "FromPostData (post_data ''p1'' (utc 63852796800))"
  let ?p2 = "FromPostData (post_data ''p2'' (utc 63836985600))"
  let ?st = "\<lparr> store = Map.empty, calls = [] \<rparr> :: batch_state"
  let ?page = "\<lparr> Posts = [?p1, ?p2], NextCursor = ''c2'', HasMore = True, Total = 0 \<rparr>"
  have cutoff: "\<not> IsZero cutoff_2024_01_01"
    by (simp add: IsZero_def cutoff_2024_01_01_def utc_def)
  have newer: "\<forall>p \<in> set [?p1]. \<not> Before (PublishedAt p) cutoff_2024_01_01"
    by (simp add: Before_def cutoff_2024_01_01_def FromPostData_def post_data_def utc_def)
  have old: "Before (PublishedAt ?p2) cutoff_2024_01_01"
    by (simp add: Before_def cutoff_2024_01_01_def FromPostData_def post_data_def utc_def)
  have fetch: "FetchPosts ref_libs scenario_remote (calls ?st) ''camp1'' 50 [] = Inr ?page"
    by code_simp
  have split: "Posts ?page = [?p1] @ ?p2 # []"
    by simp
  have run: "calls (fst (extractLinksFromCampaign 5 ref_libs scenario_remote Map.empty ''camp1'' cutoff_2024_01_01))
        = [FetchPostsCall ''camp1'' 50 [], FetchPostDetailsCall ''p1'']"
    by code_simp
  have res: "snd (extractLinksFromCampaign 5 ref_libs scenario_remote Map.empty ''camp1'' cutoff_2024_01_01)
        = Some ([''https://www.youtube.com/watch?v=dQw4w9WgXcQ''], None)"
    by code_simp
  from C2_stop_at_first_post_before_cutoff[OF fetch split cutoff newer old, of "[]" 4]
  have "\<exists>st' links.
         extract_loop (Suc 4) ref_libs scenario_remote ''camp1'' cutoff_2024_01_01 ?st [] []
           = (st', Some (links, None))
         \<and> list_cursors (calls st') = [[]]"
    by auto
  with cutoff newer old run res show ?thesis by simp
qed

text \<open>
  The claim as the specification words it, for every cutoff date, fails at the cutoff
  0001-01-01, the zero time: a post published before it is processed like any other, and
  the second page of the campaign is fetched.
\<close>

theorem C2_zero_cutoff_counterexample:
  "IsZero zero_cutoff
   \<and> Before (PublishedAt (FromPostData (post_data ''p0'' (utc (- 86400))))) zero_cutoff
   \<and> calls (fst (extractLinksFromCampaign 5 ref_libs ancient_remote Map.empty ''camp1'' zero_cutoff))
        = [FetchPostsCall ''camp1'' 50 [], FetchPostDetailsCall ''p0'',
           FetchPostsCall ''camp1'' 50 ''c2'', FetchPostDetailsCall ''p3'']
   \<and> snd (extractLinksFromCampaign 5 ref_libs ancient_remote Map.empty ''camp1'' zero_cutoff)
        = Some ([''https://www.youtube.com/watch?v=dQw4w9WgXcQ'',
                 ''https://www.youtube.com/watch?v=dQw4w9WgXcQ''], None)"
  by code_simp

text \<open>
  Claim C10. The pagination loop returns after a fetched page whose \<open>HasMore\<close> is false
  or whose \<open>NextCursor\<close> is empty, without a further list request; so does it after a
  response with a next link from which no cursor can be read; and of the list requests
  of one campaign, however long the loop runs, only the first has the empty cursor.
\<close>

theorem C10_pagination_exit_and_cursors:
  "(\<forall>page. FetchPosts L R (calls st) cid 50 cur = Inr page
        \<and> (\<not> HasMore page \<or> NextCursor page = []) \<longrightarrow>
        (\<exists>st' links. extract_loop (Suc fuel) L R cid filterDate st cur allLinks
                        = (st', Some (links, None))
                      \<and> list_cursors (calls st') = list_cursors (calls st) @ [cur]))
   \<and> (\<forall>resp r. list_posts R (calls st) cid 50 (if cur = [] then ''null'' else cur) = Some resp
        \<and> StatusCode resp = 200 \<and> Body resp = Json r
        \<and> resp_Links_Next r \<noteq> [] \<and> extractCursorFromURL L (resp_Links_Next r) = [] \<longrightarrow>
        (\<exists>st' links. extract_loop (Suc fuel) L R cid filterDate st cur allLinks
                        = (st', Some (links, None))
                      \<and> list_cursors (calls st') = list_cursors (calls st) @ [cur]))
   \<and> (\<exists>rest. list_cursors (calls (fst (extractLinksFromCampaign fuel L R database cid filterDate)))
                 = (if fuel = 0 then [] else [] # rest)
              \<and> [] \<notin> set rest)"
proof (intro conjI allI impI)
  fix page
  assume "FetchPosts L R (calls st) cid 50 cur = Inr page
        \<and> (\<not> HasMore page \<or> NextCursor page = [])"
  then show "\<exists>st' links. extract_loop (Suc fuel) L R cid filterDate st cur allLinks
                        = (st', Some (links, None))
                      \<and> list_cursors (calls st') = list_cursors (calls st) @ [cur]"
    using extract_loop_exit by blast
next
  fix resp r
  assume a: "list_posts R (calls st) cid 50 (if cur = [] then ''null'' else cur) = Some resp
        \<and> StatusCode resp = 200 \<and> Body resp = Json r
        \<and> resp_Links_Next r \<noteq> [] \<and> extractCursorFromURL L (resp_Links_Next r) = []"
  then have "FetchPosts L R (calls st) cid 50 cur =
           Inr \<lparr> Posts = map FromPostData (resp_Data r),
                  NextCursor = extractCursorFromURL L (resp_Links_Next r),
                  HasMore = (resp_Links_Next r \<noteq> []), Total = 0 \<rparr>"
    using FetchPosts_ok by blast
  with a show "\<exists>st' links. extract_loop (Suc fuel) L R cid filterDate st cur allLinks
                        = (st', Some (links, None))
                      \<and> list_cursors (calls st') = list_cursors (calls st) @ [cur]"
    using extract_loop_exit[where page = "\<lparr> Posts = map FromPostData (resp_Data r),
                  NextCursor = extractCursorFromURL L (resp_Links_Next r),
                  HasMore = (resp_Links_Next r \<noteq> []), Total = 0 \<rparr>"]
    by simp
next
  show "\<exists>rest. list_cursors (calls (fst (extractLinksFromCampaign fuel L R database cid filterDate)))
                 = (if fuel = 0 then [] else [] # rest)
              \<and> [] \<notin> set rest"
    using extract_loop_cursors[of fuel L R cid filterDate "\<lparr> store = database, calls = [] \<rparr>" "[]" "[]"]
    by (simp add: extractLinksFromCampaign_def)
qed

theorem C10_pagination_witness:
  "calls (fst (extractLinksFromCampaign 5 ref_libs cursorless_remote Map.empty ''camp1'' (utc 0)))
     = [FetchPostsCall ''camp1'' 50 []]
   \<and> snd (extractLinksFromCampaign 5 ref_libs cursorless_remote Map.empty ''camp1'' (utc 0)) = Some ([], None)
   \<and> list_cursors (calls (fst (extractLinksFromCampaign 5 ref_libs scenario_remote Map.empty ''camp1'' (utc 0))))
     = [[], ''c2'']
   \<and> (\<exists>st' links. extract_loop (Suc 4) ref_libs cursorless_remote ''camp1'' (utc 0)
                      \<lparr> store = Map.empty, calls = [] \<rparr> [] []
                    = (st', Some (links, None))
                  \<and> list_cursors (calls st') = [[]])"
proof -
  let ?st = "\<lparr> store = Map.empty, calls = [] \<rparr> :: batch_state"
  have a: "list_posts cursorless_remote (calls ?st) ''camp1'' 50 (if [] = ([]::string) then ''null'' else [])
             = Some (ok_response cursorless_response)
        \<and> StatusCode (ok_response cursorless_response) = 200
        \<and> Body (ok_response cursorless_response) = Json cursorless_response
        \<and> resp_Links_Next cursorless_response \<noteq> []
        \<and> extractCursorFromURL ref_libs (resp_Links_Next cursorless_response) = []"
    by code_simp
  have r1: "calls (fst (extractLinksFromCampaign 5 ref_libs cursorless_remote Map.empty ''camp1'' (utc 0)))
     = [FetchPostsCall ''camp1'' 50 []]"
    by code_simp
  have r2: "snd (extractLinksFromCampaign 5 ref_libs cursorless_remote Map.empty ''camp1'' (utc 0)) = Some ([], None)"
    by code_simp
  have r3: "list_cursors (calls (fst (extractLinksFromCampaign 5 ref_libs scenario_remote Map.empty ''camp1'' (utc 0))))
     = [[], ''c2'']"
    by code_simp
  from C10_pagination_exit_and_cursors[of ref_libs cursorless_remote ?st "''camp1''" "[]" 4 "utc 0" "[]"] a
  have "\<exists>st' links. extract_loop (Suc 4) ref_libs cursorless_remote ''camp1'' (utc 0) ?st [] []
                    = (st', Some (links, None))
                  \<and> list_cursors (calls st') = list_cursors (calls ?st) @ [[]]"
    by blast
  with r1 r2 r3 show ?thesis by simp
qed

section \<open>Properties of the interactive browser\<close>

lemma returns_simps [simp]:
  "returns P (Inr (db, m, c)) = P m" "returns P (Inl p) = False"
  "if_returns P (Inr (db, m, c)) = P m" "if_returns P (Inl p) = True"
  by (simp_all add: returns_def if_returns_def)

lemma returns_if_returns: "returns P r \<Longrightarrow> if_returns P r"
  by (cases r) auto

lemma returnsE: "returns P r \<Longrightarrow> \<exists>db m c. r = Inr (db, m, c) \<and> P m"
  by (cases r) auto

lemma add_link_distinct:
  "distinct (fst acc) \<Longrightarrow> distinct (fst (foldl add_link acc links))"
proof (induction links arbitrary: acc)
  case Nil
  then show ?case by simp
next
  case (Cons l ls)
  have "distinct (fst (add_link acc l))"
    using Cons.prems by (cases acc) (simp add: add_link_def)
  then show ?case using Cons.IH by simp
qed

lemma add_link_length:
  "length (fst acc) \<le> length (fst (foldl add_link acc links))"
proof (induction links arbitrary: acc)
  case Nil
  then show ?case by simp
next
  case (Cons l ls)
  have "length (fst acc) \<le> length (fst (add_link acc l))"
    by (cases acc) (simp add: add_link_def)
  with Cons.IH[of "add_link acc l"] show ?case by simp
qed

lemma add_link_first_seen:
  "fst (foldl add_link (first_seen xs, n) links) = first_seen (xs @ links)"
proof (induction links arbitrary: xs n)
  case Nil
  then show ?case by simp
next
  case (Cons l ls)
  have "add_link (first_seen xs, n) l
        = (first_seen (xs @ [l]), if l \<in> set xs then n else n + 1)"
    by (simp add: add_link_def first_seen_snoc set_first_seen)
  with Cons.IH[of "xs @ [l]"] show ?case by simp
qed

lemma distinct_remove_at:
  "distinct xs \<Longrightarrow> distinct (take i xs @ drop (Suc i) xs)"
  using set_take_disj_set_drop_if_distinct[of xs i "Suc i"] by simp

lemma length_mark_cached [simp]: "length (mark_cached ps pid) = length ps"
  by (induction ps) auto

lemma no_duplicates_simps [simp]:
  "no_duplicates (m\<lparr> statusMessage := s \<rparr>) = no_duplicates m"
  "no_duplicates (m\<lparr> state := st \<rparr>) = no_duplicates m"
  "no_duplicates (m\<lparr> cursor := i \<rparr>) = no_duplicates m"
  "no_duplicates (m\<lparr> linkCursor := i \<rparr>) = no_duplicates m"
  "no_duplicates (m\<lparr> clipboardCursor := i \<rparr>) = no_duplicates m"
  "no_duplicates (m\<lparr> loadingMsg := lm \<rparr>) = no_duplicates m"
  "no_duplicates (m\<lparr> posts := ps \<rparr>) = no_duplicates m"
  "no_duplicates (m\<lparr> postDetails := pd \<rparr>) = no_duplicates m"
  "no_duplicates (m\<lparr> cachedDetails := cd \<rparr>) = no_duplicates m"
  "no_duplicates (m\<lparr> currentPage := n \<rparr>) = no_duplicates m"
  "no_duplicates (m\<lparr> cursorHistory := h \<rparr>) = no_duplicates m"
  "no_duplicates (m\<lparr> inputValue := v \<rparr>) = no_duplicates m"
  "no_duplicates (m\<lparr> campaignID := v \<rparr>) = no_duplicates m"
  "no_duplicates (m\<lparr> err := e \<rparr>) = no_duplicates m"
  "no_duplicates (m\<lparr> width := w \<rparr>) = no_duplicates m"
  "no_duplicates (m\<lparr> height := w \<rparr>) = no_duplicates m"
  "no_duplicates (m\<lparr> nextCursor := v \<rparr>) = no_duplicates m"
  "no_duplicates (m\<lparr> hasMorePages := b \<rparr>) = no_duplicates m"
  "no_duplicates (m\<lparr> totalPosts := n \<rparr>) = no_duplicates m"
  "no_duplicates (m\<lparr> clipboardLinks := xs \<rparr>) = distinct xs"
  by (simp_all add: no_duplicates_def)

lemma list_enter_nodup: "no_duplicates m \<Longrightarrow> if_returns no_duplicates (list_enter L db m)"
  by (simp add: list_enter_def split: sum.split option.split)

lemma list_next_page_nodup: "no_duplicates m \<Longrightarrow> if_returns no_duplicates (list_next_page db m)"
  by (simp add: list_next_page_def Let_def)

lemma list_previous_page_nodup: "no_duplicates m \<Longrightarrow> if_returns no_duplicates (list_previous_page db m)"
  by (simp add: list_previous_page_def Let_def)

lemma handleListKeys_nodup: "no_duplicates m \<Longrightarrow> if_returns no_duplicates (handleListKeys L db m key)"
  by (simp add: handleListKeys_def list_enter_nodup list_next_page_nodup list_previous_page_nodup)

lemma details_force_refresh_nodup: "no_duplicates m \<Longrightarrow> if_returns no_duplicates (details_force_refresh db m)"
  by (simp add: details_force_refresh_def split: sum.split option.split)

lemma details_add_one_nodup: "no_duplicates m \<Longrightarrow> if_returns no_duplicates (details_add_one db m)"
  by (simp add: details_add_one_def no_duplicates_def split: sum.split option.split)

lemma details_add_all_nodup: "no_duplicates m \<Longrightarrow> if_returns no_duplicates (details_add_all db m)"
proof -
  assume d: "no_duplicates m"
  have "\<And>links clip added. foldl add_link (clipboardLinks m, 0) links = (clip, added) \<Longrightarrow> distinct clip"
    using add_link_distinct[of "(clipboardLinks m, 0)"] d by (metis fst_conv no_duplicates_def)
  with d show ?thesis
    by (simp add: details_add_all_def split: option.split prod.split)
qed

lemma handleDetailsKeys_nodup: "no_duplicates m \<Longrightarrow> if_returns no_duplicates (handleDetailsKeys db m key)"
  by (simp add: handleDetailsKeys_def details_force_refresh_nodup details_add_one_nodup
      details_add_all_nodup split: option.split)

lemma handleErrorKeys_nodup: "no_duplicates m \<Longrightarrow> if_returns no_duplicates (handleErrorKeys db m key)"
  by (simp add: handleErrorKeys_def)

lemma clipboard_remove_nodup:
  "no_duplicates m \<Longrightarrow>
   (case clipboard_remove m of Inl p \<Rightarrow> True | Inr m' \<Rightarrow> no_duplicates m')"
proof -
  assume d: "no_duplicates m"
  have "0 \<le> clipboardCursor m \<Longrightarrow>
    distinct (take (nat (clipboardCursor m)) (clipboardLinks m)
              @ drop (nat (clipboardCursor m + 1)) (clipboardLinks m))"
    using distinct_remove_at[of "clipboardLinks m" "nat (clipboardCursor m)"] d
    by (simp add: no_duplicates_def nat_add_distrib)
  then show ?thesis
    by (simp add: clipboard_remove_def Let_def del: distinct_append)
qed

lemma globalKeys_nodup:
  "no_duplicates m \<Longrightarrow>
   (case globalKeys L db m key of None \<Rightarrow> True | Some r \<Rightarrow> if_returns no_duplicates r)"
  using clipboard_remove_nodup[of m]
  by (auto simp: globalKeys_def Let_def clipboard_copy_def split: sum.split)

lemma state_keys_nodup: "no_duplicates m \<Longrightarrow> if_returns no_duplicates (state_keys L db m key)"
  by (simp add: state_keys_def handleListKeys_nodup handleDetailsKeys_nodup handleErrorKeys_nodup
      split: viewState.split)

lemma Update_nodup: "no_duplicates m \<Longrightarrow> if_returns no_duplicates (Update L db m msg)"
proof (cases msg)
  case (KeyMsg key)
  assume "no_duplicates m"
  then have d: "no_duplicates (m\<lparr> statusMessage := NoStatus \<rparr>)" by simp
  from globalKeys_nodup[OF d, of L db key] state_keys_nodup[OF d, of L db key] KeyMsg
  show ?thesis by (auto simp: Update_def Let_def split: option.split)
next
  case (WindowSizeMsg w h)
  assume "no_duplicates m"
  with WindowSizeMsg show ?thesis by (simp add: Update_def)
next
  case (PostsFetchedMsg ps nxt morePages totalCount e)
  assume "no_duplicates m"
  with PostsFetchedMsg show ?thesis by (simp add: Update_def posts_fetched_def split: option.split)
next
  case (PostDetailsFetchedMsg details e)
  assume "no_duplicates m"
  with PostDetailsFetchedMsg show ?thesis
    by (simp add: Update_def post_details_fetched_def Let_def split: option.split)
next
  case SpinnerTickMsg
  assume "no_duplicates m"
  with SpinnerTickMsg show ?thesis by (simp add: Update_def)
next
  case OtherMsg
  assume "no_duplicates m"
  with OtherMsg show ?thesis by (simp add: Update_def)
qed

lemma run_msgs_nodup:
  "run_msgs L db m msgs = Inr (db', m') \<Longrightarrow> no_duplicates m \<Longrightarrow> no_duplicates m'"
proof (induction msgs arbitrary: db m)
  case Nil
  then show ?case by simp
next
  case (Cons msg msgs)
  show ?case
  proof (cases "Update L db m msg")
    case (Inl p)
    with Cons.prems show ?thesis by simp
  next
    case (Inr r)
    obtain db1 m1 c where r: "r = (db1, m1, c)" by (cases r)
    from Update_nodup[OF Cons.prems(2), of L db msg] Inr r have "no_duplicates m1" by simp
    moreover from Cons.prems(1) Inr r have "run_msgs L db1 m1 msgs = Inr (db', m')" by simp
    ultimately show ?thesis by (rule Cons.IH[rotated])
  qed
qed

lemma ui_inv_index_post:
  "ui_inv m \<Longrightarrow> posts m \<noteq> [] \<Longrightarrow> index_at (posts m) (cursor m) = Inr (posts m ! nat (cursor m))"
  by (auto simp: ui_inv_def index_at_def)

lemma ui_inv_index_link:
  "ui_inv m \<Longrightarrow> postDetails m = Some pd \<Longrightarrow> pd_YouTubeLinks pd \<noteq> [] \<Longrightarrow>
   index_at (pd_YouTubeLinks pd) (linkCursor m) = Inr (pd_YouTubeLinks pd ! nat (linkCursor m))"
  by (auto simp: ui_inv_def index_at_def shown_links_def)

lemma list_enter_ui_inv: "ui_inv m \<Longrightarrow> returns ui_inv (list_enter L db m)"
proof -
  assume inv: "ui_inv m"
  show ?thesis
  proof (cases "posts m = []")
    case True
    with inv show ?thesis by (simp add: list_enter_def)
  next
    case False
    from ui_inv_index_post[OF inv False] inv False show ?thesis
      by (simp add: list_enter_def ui_inv_def clip_inv_def shown_links_def split: option.split)
  qed
qed

lemma list_next_page_ui_inv: "ui_inv m \<Longrightarrow> returns ui_inv (list_next_page db m)"
  by (simp add: list_next_page_def Let_def ui_inv_def clip_inv_def shown_links_def)

lemma list_previous_page_ui_inv: "ui_inv m \<Longrightarrow> returns ui_inv (list_previous_page db m)"
  by (simp add: list_previous_page_def Let_def ui_inv_def clip_inv_def shown_links_def)

lemma handleListKeys_ui_inv: "ui_inv m \<Longrightarrow> returns ui_inv (handleListKeys L db m key)"
proof -
  assume inv: "ui_inv m"
  have a: "ui_inv (m\<lparr> cursor := cursor m - 1 \<rparr>)" if "cursor m > 0"
    using inv that by (auto simp: ui_inv_def clip_inv_def shown_links_def)
  have b: "ui_inv (m\<lparr> cursor := cursor m + 1 \<rparr>)" if "cursor m < int (length (posts m)) - 1"
    using inv that by (auto simp: ui_inv_def clip_inv_def shown_links_def)
  have c: "ui_inv (m\<lparr> state := s, loadingMsg := l \<rparr>)" for s l
    using inv by (simp add: ui_inv_def clip_inv_def shown_links_def)
  have d: "ui_inv (m\<lparr> currentPage := 1, cursorHistory := [], state := s, loadingMsg := l \<rparr>)" for s l
    using inv by (simp add: ui_inv_def clip_inv_def shown_links_def)
  have e: "ui_inv (m\<lparr> state := s, inputValue := v \<rparr>)" for s v
    using inv by (simp add: ui_inv_def clip_inv_def shown_links_def)
  show ?thesis
    using inv a b c d e
    by (simp add: handleListKeys_def list_enter_ui_inv list_next_page_ui_inv list_previous_page_ui_inv)
qed

lemma details_force_refresh_ui_inv: "ui_inv m \<Longrightarrow> returns ui_inv (details_force_refresh db m)"
proof -
  assume inv: "ui_inv m"
  show ?thesis
  proof (cases "posts m = []")
    case True
    with inv show ?thesis by (simp add: details_force_refresh_def)
  next
    case False
    from ui_inv_index_post[OF inv False] inv False show ?thesis
      by (simp add: details_force_refresh_def ui_inv_def clip_inv_def shown_links_def split: option.split)
  qed
qed

lemma details_add_one_ui_inv: "ui_inv m \<Longrightarrow> returns ui_inv (details_add_one db m)"
proof -
  assume inv: "ui_inv m"
  show ?thesis
  proof (cases "postDetails m")
    case None
    with inv show ?thesis by (simp add: details_add_one_def)
  next
    case (Some pd)
    show ?thesis
    proof (cases "pd_YouTubeLinks pd = []")
      case True
      with Some inv show ?thesis by (simp add: details_add_one_def)
    next
      case False
      from ui_inv_index_link[OF inv Some False] Some False inv show ?thesis
        by (auto simp: details_add_one_def ui_inv_def clip_inv_def shown_links_def)
    qed
  qed
qed

lemma clip_inv_fold:
  assumes "clip_inv m"
  shows "distinct (fst (foldl add_link (clipboardLinks m, 0) links))
       \<and> (clipboardCursor m < int (length (fst (foldl add_link (clipboardLinks m, 0) links)))
          \<or> clipboardCursor m = 0)"
proof -
  have "distinct (fst (foldl add_link (clipboardLinks m, 0) links))"
    using assms add_link_distinct[of "(clipboardLinks m, 0)" links] by (simp add: clip_inv_def)
  moreover have "length (clipboardLinks m) \<le> length (fst (foldl add_link (clipboardLinks m, 0) links))"
    using add_link_length[of "(clipboardLinks m, 0)" links] by simp
  ultimately show ?thesis using assms by (auto simp: clip_inv_def)
qed

lemma details_add_all_ui_inv: "ui_inv m \<Longrightarrow> returns ui_inv (details_add_all db m)"
proof -
  assume inv: "ui_inv m"
  then have ci: "clip_inv m" by (simp add: ui_inv_def)
  show ?thesis
  proof (cases "postDetails m")
    case None
    with inv show ?thesis by (simp add: details_add_all_def)
  next
    case (Some pd)
    obtain clip added where f: "foldl add_link (clipboardLinks m, 0) (pd_YouTubeLinks pd) = (clip, added)"
      by (cases "foldl add_link (clipboardLinks m, 0) (pd_YouTubeLinks pd)")
    from clip_inv_fold[OF ci, of "pd_YouTubeLinks pd"] f
    have "distinct clip" "clipboardCursor m < int (length clip) \<or> clipboardCursor m = 0" by simp_all
    with Some f inv show ?thesis
      by (auto simp: details_add_all_def ui_inv_def clip_inv_def shown_links_def)
  qed
qed

lemma handleDetailsKeys_ui_inv: "ui_inv m \<Longrightarrow> returns ui_inv (handleDetailsKeys db m key)"
proof -
  assume inv: "ui_inv m"
  have a: "ui_inv (m\<lparr> state := s, postDetails := None, cachedDetails := None, linkCursor := 0 \<rparr>)" for s
    using inv by (simp add: ui_inv_def clip_inv_def shown_links_def)
  have b: "ui_inv (m\<lparr> linkCursor := linkCursor m - 1 \<rparr>)" if "linkCursor m > 0"
    using inv that by (auto simp: ui_inv_def clip_inv_def shown_links_def)
  have c: "ui_inv (m\<lparr> linkCursor := linkCursor m + 1 \<rparr>)"
    if "postDetails m = Some pd" "linkCursor m < int (length (pd_YouTubeLinks pd)) - 1" for pd
    using inv that by (auto simp: ui_inv_def clip_inv_def shown_links_def)
  show ?thesis
    using inv a b c
    by (simp add: handleDetailsKeys_def details_force_refresh_ui_inv details_add_one_ui_inv
        details_add_all_ui_inv split: option.split)
qed

lemma handleErrorKeys_ui_inv: "ui_inv m \<Longrightarrow> returns ui_inv (handleErrorKeys db m key)"
  by (simp add: handleErrorKeys_def ui_inv_def clip_inv_def shown_links_def)

lemma clipboard_remove_ok:
  assumes inv: "clip_inv m" and ne: "clipboardLinks m \<noteq> []"
  shows "\<exists>m'. clipboard_remove m = Inr m'
          \<and> clipboardLinks m' = take (nat (clipboardCursor m)) (clipboardLinks m)
                                  @ drop (Suc (nat (clipboardCursor m))) (clipboardLinks m)
          \<and> length (clipboardLinks m') + 1 = length (clipboardLinks m)
          \<and> clip_inv m'
          \<and> (if clipboardLinks m' = [] then clipboardCursor m' = 0
              else clipboardCursor m' \<le> int (length (clipboardLinks m')) - 1)
          \<and> posts m' = posts m \<and> cursor m' = cursor m \<and> linkCursor m' = linkCursor m
          \<and> postDetails m' = postDetails m \<and> state m' = state m
          \<and> currentPage m' = currentPage m"
proof -
  let ?c = "clipboardCursor m"
  let ?xs = "clipboardLinks m"
  define ys where "ys = take (nat ?c) ?xs @ drop (Suc (nat ?c)) ?xs"
  define c' where "c' = (if ?c \<ge> int (length ys) \<and> ?c > 0 then ?c - 1 else ?c)"
  define m' where "m' = m\<lparr> clipboardLinks := ys, clipboardCursor := c', statusMessage := RemovedLink \<rparr>"
  from inv ne have c: "0 \<le> ?c" "?c < int (length ?xs)" and d: "distinct ?xs"
    by (auto simp: clip_inv_def)
  then have suc: "nat (?c + 1) = Suc (nat ?c)" by simp
  from c have len: "length ys + 1 = length ?xs" by (auto simp: ys_def)
  have dys: "distinct ys" unfolding ys_def using d by (rule distinct_remove_at)
  have eq: "clipboard_remove m = Inr m'"
    using c by (simp add: clipboard_remove_def Let_def suc m'_def c'_def ys_def del: distinct_append)
  have rng: "0 \<le> c'" "c' < int (length ys) \<or> c' = 0"
    using c len by (auto simp: c'_def)
  have rng2: "if ys = [] then c' = 0 else c' \<le> int (length ys) - 1"
    using c len by (cases "ys = []") (auto simp: c'_def)
  have sel: "clipboardLinks m' = ys" "clipboardCursor m' = c'" "posts m' = posts m"
    "cursor m' = cursor m" "linkCursor m' = linkCursor m" "postDetails m' = postDetails m"
    "state m' = state m" "currentPage m' = currentPage m"
    by (simp_all add: m'_def)
  have ci: "clip_inv m'"
    using dys rng by (simp add: clip_inv_def sel)
  have "clipboardLinks m' = take (nat ?c) ?xs @ drop (Suc (nat ?c)) ?xs"
    by (simp add: sel ys_def)
  with eq len ci rng2 sel show ?thesis by metis
qed

lemma ui_inv_status [simp]: "ui_inv (m\<lparr> statusMessage := s \<rparr>) = ui_inv m"
  by (simp add: ui_inv_def clip_inv_def shown_links_def)

lemma globalKeys_ui_inv:
  assumes inv: "ui_inv m"
  shows "case globalKeys L db m key of None \<Rightarrow> True | Some r \<Rightarrow> returns ui_inv r"
proof -
  from inv have ci: "clip_inv m" by (simp add: ui_inv_def)
  have rm: "clipboardLinks m \<noteq> [] \<Longrightarrow>
      returns ui_inv (case clipboard_remove m of Inl p \<Rightarrow> Inl p | Inr m' \<Rightarrow> Inr (db, m', CmdNone))"
  proof -
    assume "clipboardLinks m \<noteq> []"
    from clipboard_remove_ok[OF ci this] obtain m' where
      "clipboard_remove m = Inr m'" "clip_inv m'" "posts m' = posts m" "cursor m' = cursor m"
      "linkCursor m' = linkCursor m" "postDetails m' = postDetails m"
      "currentPage m' = currentPage m"
      by blast
    with inv show ?thesis by (simp add: ui_inv_def shown_links_def)
  qed
  have cp: "ui_inv (clipboard_copy L m)"
    using inv by (simp add: clipboard_copy_def)
  have clr: "ui_inv (m\<lparr> clipboardLinks := [], clipboardCursor := 0, statusMessage := s \<rparr>)" for s
    using inv by (simp add: ui_inv_def clip_inv_def shown_links_def)
  have up: "clipboardCursor m > 0 \<Longrightarrow> ui_inv (m\<lparr> clipboardCursor := clipboardCursor m - 1 \<rparr>)"
    using inv by (auto simp: ui_inv_def clip_inv_def shown_links_def)
  have down: "clipboardCursor m < int (length (clipboardLinks m)) - 1
      \<Longrightarrow> ui_inv (m\<lparr> clipboardCursor := clipboardCursor m + 1 \<rparr>)"
    using inv by (auto simp: ui_inv_def clip_inv_def shown_links_def)
  show ?thesis
    using inv rm cp clr up down
    by (simp add: globalKeys_def Let_def)
qed

lemma state_keys_ui_inv: "ui_inv m \<Longrightarrow> returns ui_inv (state_keys L db m key)"
proof -
  assume inv: "ui_inv m"
  have a: "ui_inv (m\<lparr> campaignID := v, currentPage := 1, cursorHistory := [], state := s, loadingMsg := l \<rparr>)" for v s l
    using inv by (simp add: ui_inv_def clip_inv_def shown_links_def)
  have b: "ui_inv (m\<lparr> inputValue := v \<rparr>)" for v
    using inv by (simp add: ui_inv_def clip_inv_def shown_links_def)
  show ?thesis
    using inv a b
    by (simp add: state_keys_def handleListKeys_ui_inv handleDetailsKeys_ui_inv handleErrorKeys_ui_inv
        split: viewState.split)
qed

lemma posts_fetched_ui_inv: "ui_inv m \<Longrightarrow> returns ui_inv (posts_fetched db m ps nxt morePages totalCount e)"
  by (simp add: posts_fetched_def ui_inv_def clip_inv_def shown_links_def split: option.split)

lemma post_details_fetched_ui_inv: "ui_inv m \<Longrightarrow> returns ui_inv (post_details_fetched L db m details e)"
  by (simp add: post_details_fetched_def Let_def ui_inv_def clip_inv_def shown_links_def split: option.split)

lemma Update_ui_inv: "ui_inv m \<Longrightarrow> returns ui_inv (Update L db m msg)"
proof (cases msg)
  case (KeyMsg key)
  assume "ui_inv m"
  then have d: "ui_inv (m\<lparr> statusMessage := NoStatus \<rparr>)" by simp
  from globalKeys_ui_inv[OF d, of L db key] state_keys_ui_inv[OF d, of L db key] KeyMsg
  show ?thesis by (auto simp: Update_def Let_def split: option.split)
next
  case (WindowSizeMsg w h)
  assume "ui_inv m"
  with WindowSizeMsg show ?thesis by (simp add: Update_def ui_inv_def clip_inv_def shown_links_def)
next
  case (PostsFetchedMsg ps nxt morePages totalCount e)
  assume "ui_inv m"
  with PostsFetchedMsg show ?thesis by (simp add: Update_def posts_fetched_ui_inv)
next
  case (PostDetailsFetchedMsg details e)
  assume "ui_inv m"
  with PostDetailsFetchedMsg show ?thesis by (simp add: Update_def post_details_fetched_ui_inv)
next
  case SpinnerTickMsg
  assume "ui_inv m"
  with SpinnerTickMsg show ?thesis by (simp add: Update_def)
next
  case OtherMsg
  assume "ui_inv m"
  with OtherMsg show ?thesis by (simp add: Update_def)
qed

lemma run_msgs_ui_inv:
  "ui_inv m \<Longrightarrow> \<exists>db' m'. run_msgs L db m msgs = Inr (db', m') \<and> ui_inv m'"
proof (induction msgs arbitrary: db m)
  case Nil
  then show ?case by simp
next
  case (Cons msg msgs)
  from returnsE[OF Update_ui_inv[OF Cons.prems, of L db msg]] obtain db1 m1 c
    where u: "Update L db m msg = Inr (db1, m1, c)" and i: "ui_inv m1" by blast
  from Cons.IH[OF i, of db1] u show ?case by simp
qed

lemma ui_inv_NewModel: "ui_inv NewModel"
  by (simp add: ui_inv_def clip_inv_def shown_links_def NewModel_def)

lemma clip_inv_status [simp]: "clip_inv (m\<lparr> statusMessage := s \<rparr>) = clip_inv m"
  by (simp add: clip_inv_def)

lemma globalKeys_falls_through:
  "key \<notin> set [''ctrl+c'', ''esc'', ''q'', ''c'', ''y'', ''x'', ''X'', ''['', '']''] \<Longrightarrow>
   globalKeys L db m key = None"
  by (simp add: globalKeys_def Let_def)

lemma Update_key_in_list:
  "state m = stateList \<Longrightarrow>
   key \<notin> set [''ctrl+c'', ''esc'', ''q'', ''c'', ''y'', ''x'', ''X'', ''['', '']''] \<Longrightarrow>
   Update L db m (KeyMsg key) = handleListKeys L db (m\<lparr> statusMessage := NoStatus \<rparr>) key"
  using globalKeys_falls_through[of key L db "m\<lparr> statusMessage := NoStatus \<rparr>"]
  by (simp add: Update_def Let_def state_keys_def)

lemma Update_key_in_details:
  "state m = stateDetails \<Longrightarrow>
   key \<notin> set [''ctrl+c'', ''esc'', ''q'', ''c'', ''y'', ''x'', ''X'', ''['', '']''] \<Longrightarrow>
   Update L db m (KeyMsg key) = handleDetailsKeys db (m\<lparr> statusMessage := NoStatus \<rparr>) key"
  using globalKeys_falls_through[of key L db "m\<lparr> statusMessage := NoStatus \<rparr>"]
  by (simp add: Update_def Let_def state_keys_def)

lemma remove_at_cursor:
  assumes browsing: "state m = stateList \<or> state m = stateDetails"
    and nonempty: "clipboardLinks m \<noteq> []"
    and inv: "clip_inv m"
  shows "\<exists>m'. Update L db m (KeyMsg ''x'') = Inr (db, m', CmdNone)
          \<and> clipboardLinks m' = take (nat (clipboardCursor m)) (clipboardLinks m)
                                  @ drop (Suc (nat (clipboardCursor m))) (clipboardLinks m)
          \<and> length (clipboardLinks m') + 1 = length (clipboardLinks m)
          \<and> clip_inv m'
          \<and> 0 \<le> clipboardCursor m'
          \<and> (if clipboardLinks m' = [] then clipboardCursor m' = 0
              else clipboardCursor m' \<le> int (length (clipboardLinks m')) - 1)"
proof -
  let ?m = "m\<lparr> statusMessage := NoStatus \<rparr>"
  have inv': "clip_inv ?m" using inv by simp
  have ne': "clipboardLinks ?m \<noteq> []" using nonempty by simp
  from clipboard_remove_ok[OF inv' ne'] obtain m' where
    r: "clipboard_remove ?m = Inr m'"
    and p: "clipboardLinks m' = take (nat (clipboardCursor m)) (clipboardLinks m)
                                  @ drop (Suc (nat (clipboardCursor m))) (clipboardLinks m)"
      "length (clipboardLinks m') + 1 = length (clipboardLinks m)"
      "clip_inv m'"
      "if clipboardLinks m' = [] then clipboardCursor m' = 0
       else clipboardCursor m' \<le> int (length (clipboardLinks m')) - 1"
    by auto
  have "Update L db m (KeyMsg ''x'') = Inr (db, m', CmdNone)"
    using browsing nonempty r by (auto simp: Update_def Let_def globalKeys_def)
  moreover from p(3) have "0 \<le> clipboardCursor m'" by (simp add: clip_inv_def)
  ultimately show ?thesis using p by blast
qed

lemma add_one:
  assumes "state m = stateDetails" "postDetails m = Some pd"
    and "index_at (pd_YouTubeLinks pd) (linkCursor m) = Inr link"
    and "key = ''a'' \<or> key = ''enter''"
  shows "\<exists>m'. Update L db m (KeyMsg key) = Inr (db, m', CmdNone)
          \<and> clipboardLinks m' = (if link \<in> set (clipboardLinks m) then clipboardLinks m
                                  else clipboardLinks m @ [link])
          \<and> clipboardCursor m' = clipboardCursor m"
proof -
  from assms(3) have ne: "pd_YouTubeLinks pd \<noteq> []"
    by (auto simp: index_at_def split: if_splits)
  from assms(4) have k: "key \<notin> set [''ctrl+c'', ''esc'', ''q'', ''c'', ''y'', ''x'', ''X'', ''['', '']'']"
    by auto
  have "Update L db m (KeyMsg key) = details_add_one db (m\<lparr> statusMessage := NoStatus \<rparr>)"
    unfolding Update_key_in_details[OF assms(1) k] using assms(4)
    by (auto simp: handleDetailsKeys_def)
  with assms(2,3) ne show ?thesis
    by (simp add: details_add_one_def)
qed

lemma add_all:
  assumes "state m = stateDetails" "postDetails m = Some pd" "distinct (clipboardLinks m)"
  shows "\<exists>m'. Update L db m (KeyMsg ''A'') = Inr (db, m', CmdNone)
          \<and> clipboardLinks m' = first_seen (clipboardLinks m @ pd_YouTubeLinks pd)
          \<and> clipboardCursor m' = clipboardCursor m"
proof -
  have k: "''A'' \<notin> set [''ctrl+c'', ''esc'', ''q'', ''c'', ''y'', ''x'', ''X'', ''['', '']'']"
    by simp
  have u: "Update L db m (KeyMsg ''A'') = details_add_all db (m\<lparr> statusMessage := NoStatus \<rparr>)"
    unfolding Update_key_in_details[OF assms(1) k] by (simp add: handleDetailsKeys_def)
  have "fst (foldl add_link (first_seen (clipboardLinks m), 0) (pd_YouTubeLinks pd))
        = first_seen (clipboardLinks m @ pd_YouTubeLinks pd)"
    by (rule add_link_first_seen)
  then have f: "fst (foldl add_link (clipboardLinks m, 0) (pd_YouTubeLinks pd))
        = first_seen (clipboardLinks m @ pd_YouTubeLinks pd)"
    using assms(3) by (simp add: first_seen_distinct_id)
  show ?thesis
  proof (cases "pd_YouTubeLinks pd = []")
    case True
    with assms(2,3) u show ?thesis
      by (simp add: details_add_all_def first_seen_distinct_id)
  next
    case False
    obtain clip added where c: "foldl add_link (clipboardLinks m, 0) (pd_YouTubeLinks pd) = (clip, added)"
      by (cases "foldl add_link (clipboardLinks m, 0) (pd_YouTubeLinks pd)")
    with f have "clip = first_seen (clipboardLinks m @ pd_YouTubeLinks pd)" by simp
    with assms(2) u False c show ?thesis
      by (simp add: details_add_all_def)
  qed
qed

lemma page_forward_backward:
  assumes list: "state m = stateList"
    and more: "hasMorePages m" "nextCursor m \<noteq> []"
    and page: "1 \<le> currentPage m"
    and fwd: "kf = ''n'' \<or> kf = ''l'' \<or> kf = ''right''"
    and bwd: "kb = ''p'' \<or> kb = ''h'' \<or> kb = ''left''"
  shows "\<exists>m1 m2 m3.
           Update L db m (KeyMsg kf) = Inr (db, m1, CmdFetchPosts (nextCursor m))
         \<and> state m1 = stateLoading \<and> currentPage m1 = currentPage m + 1
         \<and> Update L db m1 (PostsFetchedMsg ps nxt morePages totalCount None) = Inr (db, m2, CmdNone)
         \<and> state m2 = stateList
         \<and> Update L db m2 (KeyMsg kb) = Inr (db, m3, CmdFetchPosts (page_cursor m))
         \<and> state m3 = stateLoading
         \<and> currentPage m3 = currentPage m
         \<and> page_cursor m3 = page_cursor m"
proof -
  let ?m0 = "m\<lparr> statusMessage := NoStatus \<rparr>"
  define h1 where "h1 = (if currentPage m = 1 then cursorHistory m @ [[]] else cursorHistory m)"
  define m1 where "m1 = ?m0\<lparr> cursorHistory := h1 @ [nextCursor m], currentPage := currentPage m + 1,
                    state := stateLoading, loadingMsg := LoadingPage (currentPage m + 1) \<rparr>"
  from fwd have kf: "kf \<notin> set [''ctrl+c'', ''esc'', ''q'', ''c'', ''y'', ''x'', ''X'', ''['', '']'']"
    by auto
  from bwd have kb: "kb \<notin> set [''ctrl+c'', ''esc'', ''q'', ''c'', ''y'', ''x'', ''X'', ''['', '']'']"
    by auto
  have "handleListKeys L db ?m0 kf = list_next_page db ?m0"
    using fwd by (auto simp: handleListKeys_def)
  then have u1: "Update L db m (KeyMsg kf) = Inr (db, m1, CmdFetchPosts (nextCursor m))"
    unfolding Update_key_in_list[OF list kf] using more
    by (simp add: list_next_page_def Let_def m1_def h1_def)
  define m2 where "m2 = m1\<lparr> posts := (case db of None \<Rightarrow> ps
                            | Some d \<Rightarrow> map (\<lambda>p. p\<lparr> DetailsCached := IsPostDetailsCached d (ID p) \<rparr>) ps),
                  nextCursor := nxt, hasMorePages := morePages, totalPosts := totalCount,
                  state := stateList, cursor := 0 \<rparr>"
  have u2: "Update L db m1 (PostsFetchedMsg ps nxt morePages totalCount None) = Inr (db, m2, CmdNone)"
    by (simp add: Update_def posts_fetched_def m2_def)
  have s2: "state m2 = stateList" and p2: "currentPage m2 = currentPage m + 1"
    and h2: "cursorHistory m2 = h1 @ [nextCursor m]"
    by (simp_all add: m2_def m1_def)
  let ?m2 = "m2\<lparr> statusMessage := NoStatus \<rparr>"
  define c where "c = (if length h1 > 0 then last h1 else [])"
  define m3 where "m3 = ?m2\<lparr> currentPage := currentPage m, cursorHistory := h1,
                    state := stateLoading, loadingMsg := LoadingPage (currentPage m) \<rparr>"
  have "handleListKeys L db ?m2 kb = list_previous_page db ?m2"
    using bwd by (auto simp: handleListKeys_def)
  then have u3: "Update L db m2 (KeyMsg kb) = Inr (db, m3, CmdFetchPosts c)"
    unfolding Update_key_in_list[OF s2 kb] using p2 h2 page
    by (simp add: list_previous_page_def Let_def m3_def c_def)
  have c: "c = page_cursor m"
    using page by (auto simp: page_cursor_def c_def h1_def)
  have pc3: "page_cursor m3 = page_cursor m"
    using page by (auto simp: page_cursor_def m3_def h1_def)
  have sel: "state m1 = stateLoading" "currentPage m1 = currentPage m + 1"
       "state m3 = stateLoading" "currentPage m3 = currentPage m"
    by (simp_all add: m1_def m3_def)
  show ?thesis
    by (intro exI[of _ m1] exI[of _ m2] exI[of _ m3]) (simp add: u1 u2 s2 u3[unfolded c] pc3 sel)
qed

lemma forced_refresh_not_restored:
  assumes details: "state m = stateDetails"
    and sel: "index_at (posts m) (cursor m) = Inr post"
  shows "\<exists>m1 m2.
           Update L (Some d) m (KeyMsg ''R'')
             = Inr (Some (ClearPostDetails d (ID post)), m1, CmdFetchPostDetails (ID post))
         \<and> state m1 = stateLoading
         \<and> posts m1 = (posts m)[nat (cursor m) := post\<lparr> DetailsCached := False \<rparr>]
         \<and> Update L (Some (ClearPostDetails d (ID post))) m1 (PostDetailsFetchedMsg details_opt (Some e))
             = Inr (Some (ClearPostDetails d (ID post)), m2, CmdNone)
         \<and> state m2 = stateError \<and> err m2 = Some e \<and> posts m2 = posts m1"
proof -
  let ?m0 = "m\<lparr> statusMessage := NoStatus \<rparr>"
  define m1 where "m1 = ?m0\<lparr> posts := (posts m)[nat (cursor m) := post\<lparr> DetailsCached := False \<rparr>],
                    state := stateLoading, loadingMsg := ForceRefreshingPostDetails \<rparr>"
  define m2 where "m2 = m1\<lparr> state := stateError, err := Some e \<rparr>"
  from sel have ne: "posts m \<noteq> []" by (auto simp: index_at_def split: if_splits)
  have k: "''R'' \<notin> set [''ctrl+c'', ''esc'', ''q'', ''c'', ''y'', ''x'', ''X'', ''['', '']'']"
    by simp
  have "handleDetailsKeys (Some d) ?m0 ''R'' = details_force_refresh (Some d) ?m0"
    by (simp add: handleDetailsKeys_def)
  then have u1: "Update L (Some d) m (KeyMsg ''R'')
             = Inr (Some (ClearPostDetails d (ID post)), m1, CmdFetchPostDetails (ID post))"
    unfolding Update_key_in_details[OF details k] using sel ne
    by (simp add: details_force_refresh_def m1_def)
  have u2: "Update L (Some (ClearPostDetails d (ID post))) m1 (PostDetailsFetchedMsg details_opt (Some e))
             = Inr (Some (ClearPostDetails d (ID post)), m2, CmdNone)"
    by (simp add: Update_def post_details_fetched_def m2_def)
  have sel: "state m1 = stateLoading" "posts m1 = (posts m)[nat (cursor m) := post\<lparr> DetailsCached := False \<rparr>]"
    "state m2 = stateError" "err m2 = Some e" "posts m2 = posts m1"
    by (simp_all add: m1_def m2_def)
  show ?thesis
    by (intro exI[of _ m1] exI[of _ m2]) (simp add: u1 u2 sel)
qed

lemma ClearPostDetails_cleared:
  "IsPostDetailsCached (ClearPostDetails d pid) pid = False
   \<and> (\<forall>r. d pid = Some r \<longrightarrow>
        ClearPostDetails d pid pid
          = Some (r\<lparr> row_description := None, row_youtube_links := None, row_details_cached := False \<rparr>))
   \<and> (d pid = None \<longrightarrow> ClearPostDetails d pid = d)
   \<and> (\<forall>p. GetPost L (ClearPostDetails d pid) pid = Inr (Some p) \<longrightarrow>
        cp_Description p = [] \<and> cp_YouTubeLinks p = [] \<and> \<not> cp_DetailsCached p)"
  by (auto simp: ClearPostDetails_def IsPostDetailsCached_def GetPost_def split: option.splits if_splits)

text \<open>
  Claim C5. Whatever messages arrive, a clipboard without duplicates stays without
  duplicates whenever \<open>Update\<close> returns, and from a model whose cursors are in range (as
  in the initial model) \<open>Update\<close> always returns and keeps them in range. Adding the
  selected link appends it unless it is already there; adding all links appends the
  first occurrences of those not yet there. Removing at the cursor of a non-empty
  clipboard shortens it by exactly one entry and leaves the cursor at 0 for an empty
  clipboard and on an entry otherwise.
\<close>

theorem C5_clipboard_invariant:
  "ui_inv NewModel
   \<and> (\<forall>db m msgs db' m'.
        run_msgs L db m msgs = Inr (db', m') \<and> distinct (clipboardLinks m)
        \<longrightarrow> distinct (clipboardLinks m'))
   \<and> (\<forall>db (m::Model) msgs. ui_inv m \<longrightarrow> (\<exists>db' m'. run_msgs L db m msgs = Inr (db', m') \<and> ui_inv m'))
   \<and> (\<forall>db (m::Model) pd link key.
        state m = stateDetails \<and> postDetails m = Some pd
        \<and> index_at (pd_YouTubeLinks pd) (linkCursor m) = Inr link
        \<and> (key = ''a'' \<or> key = ''enter'')
        \<longrightarrow> (\<exists>m'. Update L db m (KeyMsg key) = Inr (db, m', CmdNone)
                \<and> clipboardLinks m' = (if link \<in> set (clipboardLinks m) then clipboardLinks m
                                        else clipboardLinks m @ [link])
                \<and> clipboardCursor m' = clipboardCursor m))
   \<and> (\<forall>db (m::Model) pd.
        state m = stateDetails \<and> postDetails m = Some pd \<and> distinct (clipboardLinks m)
        \<longrightarrow> (\<exists>m'. Update L db m (KeyMsg ''A'') = Inr (db, m', CmdNone)
                \<and> clipboardLinks m' = first_seen (clipboardLinks m @ pd_YouTubeLinks pd)
                \<and> clipboardCursor m' = clipboardCursor m))
   \<and> (\<forall>db (m::Model).
        (state m = stateList \<or> state m = stateDetails) \<and> clipboardLinks m \<noteq> [] \<and> clip_inv m
        \<longrightarrow> (\<exists>m'. Update L db m (KeyMsg ''x'') = Inr (db, m', CmdNone)
                \<and> length (clipboardLinks m') + 1 = length (clipboardLinks m)
                \<and> distinct (clipboardLinks m')
                \<and> 0 \<le> clipboardCursor m'
                \<and> (if clipboardLinks m' = [] then clipboardCursor m' = 0
                    else clipboardCursor m' \<le> int (length (clipboardLinks m')) - 1)))"
proof (intro conjI allI impI)
  show "ui_inv NewModel" by (rule ui_inv_NewModel)
next
  fix db m msgs db' m'
  assume "run_msgs L db m msgs = Inr (db', m') \<and> distinct (clipboardLinks m)"
  then show "distinct (clipboardLinks m')"
    using run_msgs_nodup[of L db m msgs db' m'] by (simp add: no_duplicates_def)
next
  fix db and m :: Model and msgs
  assume "ui_inv m"
  then show "\<exists>db' m'. run_msgs L db m msgs = Inr (db', m') \<and> ui_inv m'"
    by (rule run_msgs_ui_inv)
next
  fix db and m :: Model and pd link key
  assume "state m = stateDetails \<and> postDetails m = Some pd
        \<and> index_at (pd_YouTubeLinks pd) (linkCursor m) = Inr link
        \<and> (key = ''a'' \<or> key = ''enter'')"
  then show "\<exists>m'. Update L db m (KeyMsg key) = Inr (db, m', CmdNone)
                \<and> clipboardLinks m' = (if link \<in> set (clipboardLinks m) then clipboardLinks m
                                        else clipboardLinks m @ [link])
                \<and> clipboardCursor m' = clipboardCursor m"
    using add_one[of m pd link key L db] by blast
next
  fix db and m :: Model and pd
  assume "state m = stateDetails \<and> postDetails m = Some pd \<and> distinct (clipboardLinks m)"
  then show "\<exists>m'. Update L db m (KeyMsg ''A'') = Inr (db, m', CmdNone)
                \<and> clipboardLinks m' = first_seen (clipboardLinks m @ pd_YouTubeLinks pd)
                \<and> clipboardCursor m' = clipboardCursor m"
    using add_all[of m pd L db] by blast
next
  fix db and m :: Model
  assume a: "(state m = stateList \<or> state m = stateDetails) \<and> clipboardLinks m \<noteq> [] \<and> clip_inv m"
  from remove_at_cursor[of m L db] a obtain m' where
    "Update L db m (KeyMsg ''x'') = Inr (db, m', CmdNone)"
    "length (clipboardLinks m') + 1 = length (clipboardLinks m)"
    "clip_inv m'" "0 \<le> clipboardCursor m'"
    "if clipboardLinks m' = [] then clipboardCursor m' = 0
     else clipboardCursor m' \<le> int (length (clipboardLinks m')) - 1"
    by blast
  then show "\<exists>m'. Update L db m (KeyMsg ''x'') = Inr (db, m', CmdNone)
                \<and> length (clipboardLinks m') + 1 = length (clipboardLinks m)
                \<and> distinct (clipboardLinks m')
                \<and> 0 \<le> clipboardCursor m'
                \<and> (if clipboardLinks m' = [] then clipboardCursor m' = 0
                    else clipboardCursor m' \<le> int (length (clipboardLinks m')) - 1)"
    by (auto simp: clip_inv_def)
qed

theorem C5_clipboard_witness:
  "final_clipboard (run_msgs ref_libs (Some Map.empty) NewModel (take 6 example_session))
     = Some ([''https://www.youtube.com/watch?v=dQw4w9WgXcQ'',
              ''https://www.youtube.com/watch?v=AAAAAAAAAAA''], 0)
   \<and> final_clipboard (run_msgs ref_libs (Some Map.empty) NewModel (take 8 example_session))
     = Some ([''https://www.youtube.com/watch?v=dQw4w9WgXcQ'',
              ''https://www.youtube.com/watch?v=AAAAAAAAAAA''], 1)
   \<and> final_clipboard (run_msgs ref_libs (Some Map.empty) NewModel example_session)
     = Some ([''https://www.youtube.com/watch?v=dQw4w9WgXcQ''], 0)
   \<and> (\<exists>db' m'. run_msgs ref_libs (Some Map.empty) NewModel example_session = Inr (db', m')
          \<and> ui_inv m' \<and> distinct (clipboardLinks m'))"
proof -
  have a: "final_clipboard (run_msgs ref_libs (Some Map.empty) NewModel (take 6 example_session))
     = Some ([''https://www.youtube.com/watch?v=dQw4w9WgXcQ'',
              ''https://www.youtube.com/watch?v=AAAAAAAAAAA''], 0)"
    by code_simp
  have b: "final_clipboard (run_msgs ref_libs (Some Map.empty) NewModel (take 8 example_session))
     = Some ([''https://www.youtube.com/watch?v=dQw4w9WgXcQ'',
              ''https://www.youtube.com/watch?v=AAAAAAAAAAA''], 1)"
    by code_simp
  have c: "final_clipboard (run_msgs ref_libs (Some Map.empty) NewModel example_session)
     = Some ([''https://www.youtube.com/watch?v=dQw4w9WgXcQ''], 0)"
    by code_simp
  from C5_clipboard_invariant[of ref_libs]
  have "\<exists>db' m'. run_msgs ref_libs (Some Map.empty) NewModel example_session = Inr (db', m') \<and> ui_inv m'"
    by blast
  then have "\<exists>db' m'. run_msgs ref_libs (Some Map.empty) NewModel example_session = Inr (db', m')
          \<and> ui_inv m' \<and> distinct (clipboardLinks m')"
    by (auto simp: ui_inv_def clip_inv_def)
  with a b c show ?thesis by blast
qed

text \<open>
  Claim C6. The page number of every model reached from the initial one is at least 1.
  In the list view of such a model, with more pages and a next cursor at hand, a
  page-forward key, the arrival of the fetched page and then a page-backward key lead
  back to the page number from before, and the page then fetched is asked for with the
  cursor of the page that was on display before the forward step, which is again the
  cursor of the page on display.
\<close>

theorem C6_forward_then_backward:
  "(\<forall>db0 msgs db' m'. run_msgs L db0 NewModel msgs = Inr (db', m') \<longrightarrow> 1 \<le> currentPage m')
   \<and> (\<forall>(m::Model) kf kb.
        state m = stateList \<and> hasMorePages m \<and> nextCursor m \<noteq> [] \<and> 1 \<le> currentPage m
        \<and> (kf = ''n'' \<or> kf = ''l'' \<or> kf = ''right'')
        \<and> (kb = ''p'' \<or> kb = ''h'' \<or> kb = ''left'')
        \<longrightarrow> (\<exists>m1 m2 m3.
               Update L db m (KeyMsg kf) = Inr (db, m1, CmdFetchPosts (nextCursor m))
             \<and> state m1 = stateLoading \<and> currentPage m1 = currentPage m + 1
             \<and> Update L db m1 (PostsFetchedMsg ps nxt morePages totalCount None) = Inr (db, m2, CmdNone)
             \<and> state m2 = stateList
             \<and> Update L db m2 (KeyMsg kb) = Inr (db, m3, CmdFetchPosts (page_cursor m))
             \<and> state m3 = stateLoading
             \<and> currentPage m3 = currentPage m
             \<and> page_cursor m3 = page_cursor m))"
proof (intro conjI allI impI)
  fix db0 msgs db' m'
  assume r: "run_msgs L db0 NewModel msgs = Inr (db', m')"
  from run_msgs_ui_inv[OF ui_inv_NewModel, of L db0 msgs] r have "ui_inv m'" by simp
  then show "1 \<le> currentPage m'" by (simp add: ui_inv_def)
next
  fix m :: Model and kf kb
  assume "state m = stateList \<and> hasMorePages m \<and> nextCursor m \<noteq> [] \<and> 1 \<le> currentPage m
        \<and> (kf = ''n'' \<or> kf = ''l'' \<or> kf = ''right'')
        \<and> (kb = ''p'' \<or> kb = ''h'' \<or> kb = ''left'')"
  then show "\<exists>m1 m2 m3.
               Update L db m (KeyMsg kf) = Inr (db, m1, CmdFetchPosts (nextCursor m))
             \<and> state m1 = stateLoading \<and> currentPage m1 = currentPage m + 1
             \<and> Update L db m1 (PostsFetchedMsg ps nxt morePages totalCount None) = Inr (db, m2, CmdNone)
             \<and> state m2 = stateList
             \<and> Update L db m2 (KeyMsg kb) = Inr (db, m3, CmdFetchPosts (page_cursor m))
             \<and> state m3 = stateLoading
             \<and> currentPage m3 = currentPage m
             \<and> page_cursor m3 = page_cursor m"
    using page_forward_backward[of m kf kb L db ps nxt morePages totalCount] by blast
qed

theorem C6_forward_then_backward_witness:
  "pagination_after (Update ref_libs None example_list_model (KeyMsg ''n''))
     = Some (CmdFetchPosts ''c2'', 2, [[], ''c2''])
   \<and> state example_list_model = stateList \<and> hasMorePages example_list_model
   \<and> nextCursor example_list_model = ''c2'' \<and> currentPage example_list_model = 1
   \<and> (\<exists>m1 m2 m3.
         Update ref_libs None example_list_model (KeyMsg ''n'') = Inr (None, m1, CmdFetchPosts ''c2'')
       \<and> Update ref_libs None m1 (PostsFetchedMsg [] ''c3'' True 0 None) = Inr (None, m2, CmdNone)
       \<and> Update ref_libs None m2 (KeyMsg ''p'') = Inr (None, m3, CmdFetchPosts [])
       \<and> currentPage m3 = 1 \<and> page_cursor m3 = [])"
proof -
  have e: "pagination_after (Update ref_libs None example_list_model (KeyMsg ''n''))
     = Some (CmdFetchPosts ''c2'', 2, [[], ''c2''])"
    by code_simp
  have h: "state example_list_model = stateList" "hasMorePages example_list_model"
    "nextCursor example_list_model \<noteq> []" "1 \<le> currentPage example_list_model"
    by (simp_all add: example_list_model_def NewModel_def)
  have v: "nextCursor example_list_model = ''c2''" "currentPage example_list_model = 1"
    "page_cursor example_list_model = []"
    by (simp_all add: example_list_model_def NewModel_def page_cursor_def)
  from C6_forward_then_backward[of ref_libs None "[]" "''c3''" True 0] h
  have "\<exists>m1 m2 m3.
         Update ref_libs None example_list_model (KeyMsg ''n'')
           = Inr (None, m1, CmdFetchPosts (nextCursor example_list_model))
       \<and> state m1 = stateLoading \<and> currentPage m1 = currentPage example_list_model + 1
       \<and> Update ref_libs None m1 (PostsFetchedMsg [] ''c3'' True 0 None) = Inr (None, m2, CmdNone)
       \<and> state m2 = stateList
       \<and> Update ref_libs None m2 (KeyMsg ''p'') = Inr (None, m3, CmdFetchPosts (page_cursor example_list_model))
       \<and> state m3 = stateLoading
       \<and> currentPage m3 = currentPage example_list_model
       \<and> page_cursor m3 = page_cursor example_list_model"
    by blast
  then have "\<exists>m1 m2 m3.
         Update ref_libs None example_list_model (KeyMsg ''n'') = Inr (None, m1, CmdFetchPosts ''c2'')
       \<and> Update ref_libs None m1 (PostsFetchedMsg [] ''c3'' True 0 None) = Inr (None, m2, CmdNone)
       \<and> Update ref_libs None m2 (KeyMsg ''p'') = Inr (None, m3, CmdFetchPosts [])
       \<and> currentPage m3 = 1 \<and> page_cursor m3 = []"
    unfolding v by blast
  with e h(1,2) v(1,2) show ?thesis by blast
qed

text \<open>
  Claim C9. In the details view, with a store at hand and a post under the list cursor,
  the forced refresh clears the detail of that post in the store and marks it uncached
  in the list in the very step that dispatches the fetch; when the fetch then fails, the
  step that takes the failure leaves the store and the list as they are and shows the
  error view. The cleared store holds no description and no links for the post, and
  reports it as not cached.
\<close>

theorem C9_forced_refresh_not_atomic:
  assumes "state m = stateDetails"
    and "index_at (posts m) (cursor m) = Inr post"
  shows "\<exists>m1 m2.
           Update L (Some d) m (KeyMsg ''R'')
             = Inr (Some (ClearPostDetails d (ID post)), m1, CmdFetchPostDetails (ID post))
         \<and> state m1 = stateLoading
         \<and> posts m1 = (posts m)[nat (cursor m) := post\<lparr> DetailsCached := False \<rparr>]
         \<and> Update L (Some (ClearPostDetails d (ID post))) m1 (PostDetailsFetchedMsg details_opt (Some e))
             = Inr (Some (ClearPostDetails d (ID post)), m2, CmdNone)
         \<and> state m2 = stateError \<and> err m2 = Some e \<and> posts m2 = posts m1
         \<and> IsPostDetailsCached (ClearPostDetails d (ID post)) (ID post) = False
         \<and> (\<forall>r. d (ID post) = Some r \<longrightarrow>
              ClearPostDetails d (ID post) (ID post)
                = Some (r\<lparr> row_description := None, row_youtube_links := None,
                           row_details_cached := False \<rparr>))
         \<and> (\<forall>p. GetPost L (ClearPostDetails d (ID post)) (ID post) = Inr (Some p) \<longrightarrow>
              cp_Description p = [] \<and> cp_YouTubeLinks p = [] \<and> \<not> cp_DetailsCached p)"
  using forced_refresh_not_restored[OF assms, of L d details_opt e]
        ClearPostDetails_cleared[of d "ID post" L]
  by blast

theorem C9_forced_refresh_witness:
  "map_sum id (map_option cp_Description) (GetPost ref_libs [''p1'' \<mapsto> example_row] ''p1'') = Inr (Some ''Hello'')
   \<and> IsPostDetailsCached [''p1'' \<mapsto> example_row] ''p1''
   \<and> index_at (posts example_details_model) (cursor example_details_model) = Inr example_list_post
   \<and> (\<exists>m1 m2.
         Update ref_libs (Some [''p1'' \<mapsto> example_row]) example_details_model (KeyMsg ''R'')
           = Inr (Some (ClearPostDetails [''p1'' \<mapsto> example_row] ''p1''), m1, CmdFetchPostDetails ''p1'')
       \<and> map DetailsCached (posts m1) = [False]
       \<and> Update ref_libs (Some (ClearPostDetails [''p1'' \<mapsto> example_row] ''p1'')) m1
             (PostDetailsFetchedMsg None (Some RequestFailed))
           = Inr (Some (ClearPostDetails [''p1'' \<mapsto> example_row] ''p1''), m2, CmdNone)
       \<and> state m2 = stateError
       \<and> map DetailsCached (posts m2) = [False])
   \<and> map_sum id (map_option cp_Description) (GetPost ref_libs (ClearPostDetails [''p1'' \<mapsto> example_row] ''p1'') ''p1'') = Inr (Some [])
   \<and> \<not> IsPostDetailsCached (ClearPostDetails [''p1'' \<mapsto> example_row] ''p1'') ''p1''"
proof -
  have s: "state example_details_model = stateDetails"
    by (simp add: example_details_model_def NewModel_def)
  have i: "index_at (posts example_details_model) (cursor example_details_model) = Inr example_list_post"
    by (simp add: example_details_model_def NewModel_def index_at_def)
  have pid: "ID example_list_post = ''p1''"
    by (simp add: example_list_post_def FromPostData_def post_data_def)
  have ps: "posts example_details_model = [example_list_post]" "cursor example_details_model = 0"
    by (simp_all add: example_details_model_def NewModel_def)
  have before: "map_sum id (map_option cp_Description) (GetPost ref_libs [''p1'' \<mapsto> example_row] ''p1'') = Inr (Some ''Hello'')"
    "IsPostDetailsCached [''p1'' \<mapsto> example_row] ''p1''"
    by (simp_all add: GetPost_def IsPostDetailsCached_def example_row_def ref_libs_def ref_time_scans_def utc_def)
  have after: "map_sum id (map_option cp_Description) (GetPost ref_libs (ClearPostDetails [''p1'' \<mapsto> example_row] ''p1'') ''p1'') = Inr (Some [])"
    "\<not> IsPostDetailsCached (ClearPostDetails [''p1'' \<mapsto> example_row] ''p1'') ''p1''"
    by (simp_all add: GetPost_def IsPostDetailsCached_def ClearPostDetails_def example_row_def ref_libs_def ref_time_scans_def utc_def)
  from C9_forced_refresh_not_atomic[OF s i, of ref_libs "[''p1'' \<mapsto> example_row]" None RequestFailed]
  have "\<exists>m1 m2.
         Update ref_libs (Some [''p1'' \<mapsto> example_row]) example_details_model (KeyMsg ''R'')
           = Inr (Some (ClearPostDetails [''p1'' \<mapsto> example_row] ''p1''), m1, CmdFetchPostDetails ''p1'')
       \<and> map DetailsCached (posts m1) = [False]
       \<and> Update ref_libs (Some (ClearPostDetails [''p1'' \<mapsto> example_row] ''p1'')) m1
             (PostDetailsFetchedMsg None (Some RequestFailed))
           = Inr (Some (ClearPostDetails [''p1'' \<mapsto> example_row] ''p1''), m2, CmdNone)
       \<and> state m2 = stateError
       \<and> map DetailsCached (posts m2) = [False]"
    unfolding pid ps by auto
  with before after i show ?thesis by blast
qed

section \<open>The flag for more pages and its readers\<close>

lemma posts_fetched_page:
  "\<exists>m1. Update L db m (PostsFetchedMsg ps nxt morePages totalCount None) = Inr (db, m1, CmdNone)
        \<and> state m1 = stateList \<and> hasMorePages m1 = morePages \<and> nextCursor m1 = nxt"
  by (simp add: Update_def posts_fetched_def)

lemma next_page_key:
  assumes "state m = stateList" and "key \<in> set [''n'', ''l'', ''right'']"
  shows "Update L db m (KeyMsg key) = list_next_page db (m\<lparr> statusMessage := NoStatus \<rparr>)"
proof -
  have k: "key \<notin> set [''ctrl+c'', ''esc'', ''q'', ''c'', ''y'', ''x'', ''X'', ''['', '']'']"
    using assms(2) by auto
  have "handleListKeys L db (m\<lparr> statusMessage := NoStatus \<rparr>) key
          = list_next_page db (m\<lparr> statusMessage := NoStatus \<rparr>)"
    using assms(2) by (auto simp: handleListKeys_def)
  with Update_key_in_list[OF assms(1) k] show ?thesis by simp
qed

lemma next_page_guard:
  assumes "state m = stateList" and "key \<in> set [''n'', ''l'', ''right'']"
  shows "(hasMorePages m \<and> nextCursor m \<noteq> [] \<longrightarrow>
            (\<exists>m2. Update L db m (KeyMsg key) = Inr (db, m2, CmdFetchPosts (nextCursor m))
                 \<and> state m2 = stateLoading \<and> currentPage m2 = currentPage m + 1))
       \<and> (\<not> (hasMorePages m \<and> nextCursor m \<noteq> []) \<longrightarrow>
            Update L db m (KeyMsg key) = Inr (db, m\<lparr> statusMessage := NoStatus \<rparr>, CmdNone))"
  unfolding next_page_key[OF assms] by (simp add: list_next_page_def Let_def)

text \<open>
  Claim C3, as the code has it. When the list request succeeds, \<open>HasMore\<close> is true
  exactly when the response has a non-empty next link, whatever that link looks like.
  \<open>NextCursor\<close> is the first value of the \<^verbatim>\<open>page[cursor]\<close> parameter of the link; it is
  empty when the link is missing, when it cannot be parsed and when it has no such
  parameter, and with it empty \<open>HasMore\<close> can still be true. It is the two readers of the
  page that treat a page without a cursor as the last one: the batch loop returns after
  it without a further list request, and in the browser, once the page has arrived, the
  keys for the next page fetch nothing; with a cursor, the keys fetch the page of that
  cursor.
\<close>

theorem C3_hasMore_is_next_link_present:
  assumes "list_posts R hist cid count (if cur = [] then ''null'' else cur) = Some resp"
    and "StatusCode resp = 200" and "Body resp = Json r"
  shows "\<exists>page. FetchPosts L R hist cid count cur = Inr page
           \<and> HasMore page = (resp_Links_Next r \<noteq> [])
           \<and> (resp_Links_Next r = [] \<longrightarrow> NextCursor page = [])
           \<and> (url_Parse L (resp_Links_Next r) = None \<longrightarrow> NextCursor page = [])
           \<and> (\<forall>q. url_Parse L (resp_Links_Next r) = Some q \<and> url_Query L q ''page[cursor]'' = None
                  \<longrightarrow> NextCursor page = [])
           \<and> (\<forall>q v vs. resp_Links_Next r \<noteq> [] \<and> url_Parse L (resp_Links_Next r) = Some q
                    \<and> url_Query L q ''page[cursor]'' = Some (v # vs)
                  \<longrightarrow> NextCursor page = v)
           \<and> (NextCursor page \<noteq> [] \<longrightarrow> HasMore page)
           \<and> (\<forall>st fuel filterDate allLinks.
                 calls st = hist \<and> count = 50 \<and> NextCursor page = [] \<longrightarrow>
                 (\<exists>st' links. extract_loop (Suc fuel) L R cid filterDate st cur allLinks
                                 = (st', Some (links, None))
                               \<and> list_cursors (calls st') = list_cursors hist @ [cur]))
           \<and> (\<forall>db (m::Model) key. key \<in> set [''n'', ''l'', ''right''] \<longrightarrow>
                 (\<exists>m1. Update L db m (PostsFetchedMsg (Posts page) (NextCursor page) (HasMore page)
                                         (Total page) None)
                          = Inr (db, m1, CmdNone)
                      \<and> state m1 = stateList
                      \<and> hasMorePages m1 = HasMore page \<and> nextCursor m1 = NextCursor page
                      \<and> (NextCursor page = [] \<longrightarrow>
                           Update L db m1 (KeyMsg key) = Inr (db, m1\<lparr> statusMessage := NoStatus \<rparr>, CmdNone))
                      \<and> (NextCursor page \<noteq> [] \<longrightarrow>
                           (\<exists>m2. Update L db m1 (KeyMsg key)
                                    = Inr (db, m2, CmdFetchPosts (NextCursor page))))))"
proof -
  define page where "page = \<lparr> Posts = map FromPostData (resp_Data r),
                  NextCursor = extractCursorFromURL L (resp_Links_Next r),
                  HasMore = (resp_Links_Next r \<noteq> []), Total = 0 \<rparr>"
  have fetch: "FetchPosts L R hist cid count cur = Inr page"
    unfolding page_def using FetchPosts_ok[OF assms] .
  have hm: "HasMore page = (resp_Links_Next r \<noteq> [])" and
       nc: "NextCursor page = extractCursorFromURL L (resp_Links_Next r)"
    by (simp_all add: page_def)
  have cur_imp: "NextCursor page \<noteq> [] \<longrightarrow> HasMore page"
    unfolding hm nc using extractCursorFromURL_nonempty by blast
  have batch: "\<forall>st fuel filterDate allLinks.
                 calls st = hist \<and> count = 50 \<and> NextCursor page = [] \<longrightarrow>
                 (\<exists>st' links. extract_loop (Suc fuel) L R cid filterDate st cur allLinks
                                 = (st', Some (links, None))
                               \<and> list_cursors (calls st') = list_cursors hist @ [cur])"
  proof (intro allI impI)
    fix st :: batch_state and fuel filterDate allLinks
    assume a: "calls st = hist \<and> count = 50 \<and> NextCursor page = []"
    then have f: "FetchPosts L R (calls st) cid 50 cur = Inr page" using fetch by simp
    from a have l: "\<not> HasMore page \<or> NextCursor page = []" by simp
    from extract_loop_exit[OF f l, of fuel filterDate allLinks] a
    show "\<exists>st' links. extract_loop (Suc fuel) L R cid filterDate st cur allLinks
                                 = (st', Some (links, None))
                               \<and> list_cursors (calls st') = list_cursors hist @ [cur]"
      by simp
  qed
  have browser: "\<forall>db (m::Model) key. key \<in> set [''n'', ''l'', ''right''] \<longrightarrow>
                 (\<exists>m1. Update L db m (PostsFetchedMsg (Posts page) (NextCursor page) (HasMore page)
                                         (Total page) None)
                          = Inr (db, m1, CmdNone)
                      \<and> state m1 = stateList
                      \<and> hasMorePages m1 = HasMore page \<and> nextCursor m1 = NextCursor page
                      \<and> (NextCursor page = [] \<longrightarrow>
                           Update L db m1 (KeyMsg key) = Inr (db, m1\<lparr> statusMessage := NoStatus \<rparr>, CmdNone))
                      \<and> (NextCursor page \<noteq> [] \<longrightarrow>
                           (\<exists>m2. Update L db m1 (KeyMsg key)
                                    = Inr (db, m2, CmdFetchPosts (NextCursor page)))))"
  proof (intro allI impI)
    fix db and m :: Model and key
    assume k: "key \<in> set [''n'', ''l'', ''right'']"
    from posts_fetched_page[of L db m "Posts page" "NextCursor page" "HasMore page" "Total page"]
    obtain m1 where u: "Update L db m (PostsFetchedMsg (Posts page) (NextCursor page) (HasMore page)
                                         (Total page) None) = Inr (db, m1, CmdNone)"
      and s: "state m1 = stateList" and h: "hasMorePages m1 = HasMore page"
      and n: "nextCursor m1 = NextCursor page" by blast
    from next_page_guard[OF s k, of L db] h n cur_imp
    have "(NextCursor page = [] \<longrightarrow>
              Update L db m1 (KeyMsg key) = Inr (db, m1\<lparr> statusMessage := NoStatus \<rparr>, CmdNone))
        \<and> (NextCursor page \<noteq> [] \<longrightarrow>
              (\<exists>m2. Update L db m1 (KeyMsg key) = Inr (db, m2, CmdFetchPosts (NextCursor page))))"
      by auto
    with u s h n
    show "\<exists>m1. Update L db m (PostsFetchedMsg (Posts page) (NextCursor page) (HasMore page)
                                         (Total page) None)
                          = Inr (db, m1, CmdNone)
                      \<and> state m1 = stateList
                      \<and> hasMorePages m1 = HasMore page \<and> nextCursor m1 = NextCursor page
                      \<and> (NextCursor page = [] \<longrightarrow>
                           Update L db m1 (KeyMsg key) = Inr (db, m1\<lparr> statusMessage := NoStatus \<rparr>, CmdNone))
                      \<and> (NextCursor page \<noteq> [] \<longrightarrow>
                           (\<exists>m2. Update L db m1 (KeyMsg key)
                                    = Inr (db, m2, CmdFetchPosts (NextCursor page))))"
      by blast
  qed
  from extractCursorFromURL_cases[of "resp_Links_Next r" L]
  have cases: "(resp_Links_Next r = [] \<longrightarrow> NextCursor page = [])"
      "(url_Parse L (resp_Links_Next r) = None \<longrightarrow> NextCursor page = [])"
      "(\<forall>q. url_Parse L (resp_Links_Next r) = Some q \<and> url_Query L q ''page[cursor]'' = None
                  \<longrightarrow> NextCursor page = [])"
      "(\<forall>q v vs. resp_Links_Next r \<noteq> [] \<and> url_Parse L (resp_Links_Next r) = Some q
                    \<and> url_Query L q ''page[cursor]'' = Some (v # vs)
                  \<longrightarrow> NextCursor page = v)"
    unfolding nc by blast+
  from fetch hm cases cur_imp batch browser show ?thesis
    by (intro exI[of _ page] conjI)
qed

theorem C3_hasMore_witness:
  "FetchPosts ref_libs linked_remote [] ''1'' 20 []
     = Inr \<lparr> Posts = [], NextCursor = ''01H'', HasMore = True, Total = 0 \<rparr>
   \<and> (\<exists>m1 m2. Update ref_libs None NewModel (PostsFetchedMsg [] ''01H'' True 0 None)
                 = Inr (None, m1, CmdNone)
             \<and> Update ref_libs None m1 (KeyMsg ''n'') = Inr (None, m2, CmdFetchPosts ''01H''))
   \<and> FetchPosts ref_libs cursorless_remote [] ''camp1'' 50 []
     = Inr \<lparr> Posts = [], NextCursor = [], HasMore = True, Total = 0 \<rparr>
   \<and> (\<exists>st' links. extract_loop (Suc 4) ref_libs cursorless_remote ''camp1'' cutoff_2024_01_01
                      \<lparr> store = Map.empty, calls = [] \<rparr> [] []
                    = (st', Some (links, None))
                  \<and> list_cursors (calls st') = [[]])
   \<and> (\<exists>m1. Update ref_libs None NewModel (PostsFetchedMsg [] [] True 0 None)
                 = Inr (None, m1, CmdNone)
           \<and> Update ref_libs None m1 (KeyMsg ''n'') = Inr (None, m1\<lparr> statusMessage := NoStatus \<rparr>, CmdNone))"
proof -
  have a: "list_posts linked_remote [] ''1'' 20 (if [] = ([]::string) then ''null'' else [])
             = Some (ok_response linked_response)"
    by (simp add: linked_remote_def table_remote_def)
  have b: "list_posts cursorless_remote [] ''camp1'' 50 (if [] = ([]::string) then ''null'' else [])
             = Some (ok_response cursorless_response)"
    by (simp add: cursorless_remote_def table_remote_def)
  have s: "StatusCode (ok_response linked_response) = 200"
          "Body (ok_response linked_response) = Json linked_response"
          "StatusCode (ok_response cursorless_response) = 200"
          "Body (ok_response cursorless_response) = Json cursorless_response"
    by (simp_all add: ok_response_def)
  have e1: "FetchPosts ref_libs linked_remote [] ''1'' 20 []
     = Inr \<lparr> Posts = [], NextCursor = ''01H'', HasMore = True, Total = 0 \<rparr>"
    by code_simp
  have e2: "FetchPosts ref_libs cursorless_remote [] ''camp1'' 50 []
     = Inr \<lparr> Posts = [], NextCursor = [], HasMore = True, Total = 0 \<rparr>"
    by code_simp
  have k: "''n'' \<in> set [''n'', ''l'', ''right'']" by simp
  let ?st = "\<lparr> store = Map.empty, calls = [] \<rparr> :: batch_state"
  from C3_hasMore_is_next_link_present[OF a s(1,2), of ref_libs] obtain page1 where
    p1: "FetchPosts ref_libs linked_remote [] ''1'' 20 [] = Inr page1"
    and br1: "\<forall>db (m::Model) key. key \<in> set [''n'', ''l'', ''right''] \<longrightarrow>
                 (\<exists>m1. Update ref_libs db m (PostsFetchedMsg (Posts page1) (NextCursor page1) (HasMore page1)
                                         (Total page1) None)
                          = Inr (db, m1, CmdNone)
                      \<and> state m1 = stateList
                      \<and> hasMorePages m1 = HasMore page1 \<and> nextCursor m1 = NextCursor page1
                      \<and> (NextCursor page1 = [] \<longrightarrow>
                           Update ref_libs db m1 (KeyMsg key) = Inr (db, m1\<lparr> statusMessage := NoStatus \<rparr>, CmdNone))
                      \<and> (NextCursor page1 \<noteq> [] \<longrightarrow>
                           (\<exists>m2. Update ref_libs db m1 (KeyMsg key)
                                    = Inr (db, m2, CmdFetchPosts (NextCursor page1)))))"
    by blast
  from p1 e1 have v1: "page1 = \<lparr> Posts = [], NextCursor = ''01H'', HasMore = True, Total = 0 \<rparr>" by simp
  from br1[rule_format, OF k, of None NewModel]
  have w1: "\<exists>m1 m2. Update ref_libs None NewModel (PostsFetchedMsg [] ''01H'' True 0 None)
                 = Inr (None, m1, CmdNone)
             \<and> Update ref_libs None m1 (KeyMsg ''n'') = Inr (None, m2, CmdFetchPosts ''01H'')"
    unfolding v1 by auto
  from C3_hasMore_is_next_link_present[OF b s(3,4), of ref_libs] obtain page2 where
    p2: "FetchPosts ref_libs cursorless_remote [] ''camp1'' 50 [] = Inr page2"
    and bt2: "\<forall>st fuel filterDate allLinks.
                 calls st = [] \<and> (50::int) = 50 \<and> NextCursor page2 = [] \<longrightarrow>
                 (\<exists>st' links. extract_loop (Suc fuel) ref_libs cursorless_remote ''camp1'' filterDate st [] allLinks
                                 = (st', Some (links, None))
                               \<and> list_cursors (calls st') = list_cursors [] @ [[]])"
    and br2: "\<forall>db (m::Model) key. key \<in> set [''n'', ''l'', ''right''] \<longrightarrow>
                 (\<exists>m1. Update ref_libs db m (PostsFetchedMsg (Posts page2) (NextCursor page2) (HasMore page2)
                                         (Total page2) None)
                          = Inr (db, m1, CmdNone)
                      \<and> state m1 = stateList
                      \<and> hasMorePages m1 = HasMore page2 \<and> nextCursor m1 = NextCursor page2
                      \<and> (NextCursor page2 = [] \<longrightarrow>
                           Update ref_libs db m1 (KeyMsg key) = Inr (db, m1\<lparr> statusMessage := NoStatus \<rparr>, CmdNone))
                      \<and> (NextCursor page2 \<noteq> [] \<longrightarrow>
                           (\<exists>m2. Update ref_libs db m1 (KeyMsg key)
                                    = Inr (db, m2, CmdFetchPosts (NextCursor page2)))))"
    by blast
  from p2 e2 have v2: "page2 = \<lparr> Posts = [], NextCursor = [], HasMore = True, Total = 0 \<rparr>" by simp
  from bt2[rule_format, of ?st 4 cutoff_2024_01_01 "[]"]
  have w3: "\<exists>st' links. extract_loop (Suc 4) ref_libs cursorless_remote ''camp1'' cutoff_2024_01_01
                      ?st [] []
                    = (st', Some (links, None))
                  \<and> list_cursors (calls st') = [[]]"
    unfolding v2 by simp
  from br2[rule_format, OF k, of None NewModel]
  have w4: "\<exists>m1. Update ref_libs None NewModel (PostsFetchedMsg [] [] True 0 None)
                 = Inr (None, m1, CmdNone)
           \<and> Update ref_libs None m1 (KeyMsg ''n'') = Inr (None, m1\<lparr> statusMessage := NoStatus \<rparr>, CmdNone)"
    unfolding v2 by auto
  from e1 w1 e2 w3 w4 show ?thesis by blast
qed

text \<open>
  The claim as the specification words it fails: a next link without a
  \<^verbatim>\<open>page[cursor]\<close> parameter yields no cursor, and still \<open>HasMore\<close> is true.
\<close>

theorem C3_malformed_next_counterexample:
  "FetchPosts ref_libs cursorless_remote [] ''1'' 20 []
     = Inr \<lparr> Posts = [], NextCursor = [], HasMore = True, Total = 0 \<rparr>"
  by code_simp

end
